theory Spec2Isabelle
  imports Complex_Main "HOL-Library.Multiset" "HOL-Library.Option_ord"
begin

section \<open>Exceptions\<close>

text \<open>
  The Python exceptions that the modelled code can raise. \<open>Failure\<close> stands for any
  other subclass of \<open>Exception\<close> raised by a subscriber.
\<close>

datatype exn = TypeError | KeyError | ValueError | IndexError | ZeroDivisionError
  | Failure string

section \<open>Event bus (src/core/event\_bus.py)\<close>

text \<open>
  \<open>EventBus._subscribers\<close> is a \<open>defaultdict(list)\<close> from topic to the list of
  callbacks in subscription order: a map whose missing keys read as the empty list.
\<close>

type_synonym 'h subscribers = "string \<rightharpoonup> 'h list"

definition callbacks_of :: "'h subscribers \<Rightarrow> string \<Rightarrow> 'h list" where
  "callbacks_of subs topic = (case subs topic of None \<Rightarrow> [] | Some cbs \<Rightarrow> cbs)"

definition subscribe :: "'h subscribers \<Rightarrow> string \<Rightarrow> 'h \<Rightarrow> 'h subscribers" where
  "subscribe subs topic cb = subs(topic \<mapsto> callbacks_of subs topic @ [cb])"

definition unsubscribe :: "'h subscribers \<Rightarrow> string \<Rightarrow> 'h \<Rightarrow> 'h subscribers" where
  "unsubscribe subs topic cb =
     (if cb \<in> set (callbacks_of subs topic)
      then subs(topic \<mapsto> remove1 cb (callbacks_of subs topic))
      else subs)"

definition clear :: "'h subscribers \<Rightarrow> 'h subscribers" where
  "clear subs = Map.empty"

text \<open>
  A callback is a Python callable. \<open>iscoroutinefunction\<close> is what
  \<open>inspect.iscoroutinefunction(cb)\<close> answers; \<open>body\<close> runs the callable on the
  payload to completion in a world \<open>'w\<close> (everything the callable can touch), and
  returns \<open>Some e\<close> when it raises \<open>e\<close>. The subscriber table is not part of the
  world: the callables do not call \<open>subscribe\<close>, \<open>unsubscribe\<close> or \<open>clear\<close> on the
  bus that runs them (in the repository only constructors and start-up code do).
\<close>

record ('d, 'w) callback =
  iscoroutinefunction :: bool
  body :: "'d \<Rightarrow> 'w \<Rightarrow> exn option \<times> 'w"

text \<open>
  The \<open>for cb in callbacks\<close> loop of \<open>publish\<close>. Calling a coroutine function only
  creates the coroutine, which is appended to \<open>tasks\<close>; a plain function runs at
  once, inside \<open>try ... except Exception\<close>, which logs the exception and goes on.
  The result is (tasks, logged exceptions, world).
\<close>

fun invoke_subscribers ::
  "('d, 'w) callback list \<Rightarrow> 'd \<Rightarrow> 'w \<Rightarrow> ('d, 'w) callback list \<times> exn list \<times> 'w" where
  "invoke_subscribers [] d w = ([], [], w)"
| "invoke_subscribers (cb # cbs) d w =
     (if iscoroutinefunction cb then
        (case invoke_subscribers cbs d w of
           (tasks, logged, w') \<Rightarrow> (cb # tasks, logged, w'))
      else
        (case body cb d w of
           (r, w1) \<Rightarrow>
             (case invoke_subscribers cbs d w1 of
                (tasks, logged, w') \<Rightarrow>
                  (tasks, (case r of None \<Rightarrow> [] | Some e \<Rightarrow> [e]) @ logged, w'))))"


record ('d, 'w) published =
  outcome :: "exn + unit"
  table :: "('d, 'w) callback subscribers"
  logged :: "exn list"
  world :: 'w










section \<open>Wiring of the components on the bus\<close>

text \<open>
  The bound methods that the components register as callbacks, and the
  \<open>bus.subscribe\<close> calls of their constructors:
  \<open>StreamRouter.__init__\<close> (stream\_router.py, line 22),
  \<open>CandlestickAggregator.__init__\<close> (candlestick\_aggregator.py, line 30),
  \<open>MultiStrategyManager.__init__\<close> (enabled), \<open>PortfolioHandler.__init__\<close> and
  \<open>OrderExecutionHandler.__init__\<close> (with a bus).
  \<open>StreamRouter._flush_buffer\<close> publishes on \<open>ordered_topic\<close>.
\<close>

datatype handler_name =
    StreamRouter_on_raw
  | CandlestickAggregator_on_tick
  | MultiStrategyManager_on_market_snapshot
  | PortfolioHandler_on_signal
  | PortfolioHandler_on_fill
  | OrderExecutionHandler_on_order

definition ordered_topic :: string where
  "ordered_topic = ''ORDERED_MARKET''"

definition StreamRouter_init :: "handler_name subscribers \<Rightarrow> handler_name subscribers" where
  "StreamRouter_init subs = subscribe subs ''RAW_MARKET'' StreamRouter_on_raw"

definition CandlestickAggregator_init :: "handler_name subscribers \<Rightarrow> handler_name subscribers" where
  "CandlestickAggregator_init subs = subscribe subs ''RAW_MARKET'' CandlestickAggregator_on_tick"

definition MultiStrategyManager_init :: "handler_name subscribers \<Rightarrow> handler_name subscribers" where
  "MultiStrategyManager_init subs =
     subscribe subs ''MARKET_SNAPSHOT'' MultiStrategyManager_on_market_snapshot"

definition PortfolioHandler_init :: "handler_name subscribers \<Rightarrow> handler_name subscribers" where
  "PortfolioHandler_init subs =
     subscribe (subscribe subs ''SIGNAL'' PortfolioHandler_on_signal) ''FILL'' PortfolioHandler_on_fill"

definition OrderExecutionHandler_init :: "handler_name subscribers \<Rightarrow> handler_name subscribers" where
  "OrderExecutionHandler_init subs = subscribe subs ''ORDER'' OrderExecutionHandler_on_order"

section \<open>Ticks\<close>

text \<open>
  A raw tick is a dict. \<open>tick_timestamp\<close> is what
  \<open>datetime.fromisoformat(ts.replace("Z", "+00:00"))\<close> reads from the \<open>timestamp\<close>
  entry, as microseconds since the epoch (UTC); \<open>None\<close> when the entry is missing or
  the call raises. \<open>tick_price\<close> is \<open>float(tick["price"])\<close>, \<open>None\<close> when that
  raises; \<open>tick_volume\<close> is \<open>None\<close> when the key is absent. Prices and clock readings
  are real numbers (no NaN, no rounding).
\<close>

record tick =
  tick_source :: string
  tick_symbol :: string
  tick_price :: "real option"
  tick_volume :: "real option"
  tick_timestamp :: "int option"

section \<open>heapq (the standard library's binary heap on a list)\<close>

text \<open>
  \<open>heapq\<close> compares items with their own \<open><\<close>, which may raise; it is the
  parameter \<open>lt\<close>.
  \<^verbatim>\<open>
  def _siftdown(heap, startpos, pos):
      newitem = heap[pos]
      while pos > startpos:
          parentpos = (pos - 1) >> 1
          parent = heap[parentpos]
          if newitem < parent:
              heap[pos] = parent
              pos = parentpos
              continue
          break
      heap[pos] = newitem
  \<close>
\<close>

function siftdown_loop ::
  "('a \<Rightarrow> 'a \<Rightarrow> exn + bool) \<Rightarrow> 'a list \<Rightarrow> nat \<Rightarrow> nat \<Rightarrow> 'a \<Rightarrow> exn + 'a list" where
  "siftdown_loop lt heap startpos pos newitem =
     (if pos > startpos then
        (case lt newitem (heap ! ((pos - 1) div 2)) of
           Inl e \<Rightarrow> Inl e
         | Inr b \<Rightarrow>
             if b then siftdown_loop lt (heap[pos := heap ! ((pos - 1) div 2)]) startpos
                         ((pos - 1) div 2) newitem
             else Inr (heap[pos := newitem]))
      else Inr (heap[pos := newitem]))"
  by pat_completeness auto
termination
  by (relation "measure (\<lambda>(lt, heap, startpos, pos, newitem). pos)") auto

definition siftdown ::
  "('a \<Rightarrow> 'a \<Rightarrow> exn + bool) \<Rightarrow> 'a list \<Rightarrow> nat \<Rightarrow> nat \<Rightarrow> exn + 'a list" where
  "siftdown lt heap startpos pos = siftdown_loop lt heap startpos pos (heap ! pos)"

text \<open>
  \<^verbatim>\<open>
  def _siftup(heap, pos):
      endpos = len(heap)
      startpos = pos
      newitem = heap[pos]
      childpos = 2*pos + 1
      while childpos < endpos:
          rightpos = childpos + 1
          if rightpos < endpos and not heap[childpos] < heap[rightpos]:
              childpos = rightpos
          heap[pos] = heap[childpos]
          pos = childpos
          childpos = 2*pos + 1
      heap[pos] = newitem
      _siftdown(heap, startpos, pos)
  \<close>
\<close>

function siftup_loop ::
  "('a \<Rightarrow> 'a \<Rightarrow> exn + bool) \<Rightarrow> 'a list \<Rightarrow> nat \<Rightarrow> nat \<Rightarrow> exn + 'a list \<times> nat" where
  "siftup_loop lt heap endpos pos =
     (if 2 * pos + 1 < endpos then
        (if 2 * pos + 2 < endpos then
           (case lt (heap ! (2 * pos + 1)) (heap ! (2 * pos + 2)) of
              Inl e \<Rightarrow> Inl e
            | Inr b \<Rightarrow>
                if \<not> b then siftup_loop lt (heap[pos := heap ! (2 * pos + 2)]) endpos (2 * pos + 2)
                else siftup_loop lt (heap[pos := heap ! (2 * pos + 1)]) endpos (2 * pos + 1))
         else siftup_loop lt (heap[pos := heap ! (2 * pos + 1)]) endpos (2 * pos + 1))
      else Inr (heap, pos))"
  by pat_completeness auto
termination
  by (relation "measure (\<lambda>(lt, heap, endpos, pos). endpos - pos)") auto

definition siftup :: "('a \<Rightarrow> 'a \<Rightarrow> exn + bool) \<Rightarrow> 'a list \<Rightarrow> nat \<Rightarrow> exn + 'a list" where
  "siftup lt heap pos =
     (let newitem = heap ! pos in
      case siftup_loop lt heap (length heap) pos of
        Inl e \<Rightarrow> Inl e
      | Inr (heap', pos') \<Rightarrow> siftdown lt (heap'[pos' := newitem]) pos pos')"

text \<open>
  \<^verbatim>\<open>
  def heappush(heap, item):
      heap.append(item)
      _siftdown(heap, 0, len(heap)-1)

  def heappop(heap):
      lastelt = heap.pop()    # raises appropriate IndexError if heap is empty
      if heap:
          returnitem = heap[0]
          heap[0] = lastelt
          _siftup(heap, 0)
          return returnitem
      return lastelt
  \<close>
\<close>

definition heappush :: "('a \<Rightarrow> 'a \<Rightarrow> exn + bool) \<Rightarrow> 'a list \<Rightarrow> 'a \<Rightarrow> exn + 'a list" where
  "heappush lt heap item = siftdown lt (heap @ [item]) 0 (length heap)"

definition heappop :: "('a \<Rightarrow> 'a \<Rightarrow> exn + bool) \<Rightarrow> 'a list \<Rightarrow> exn + 'a \<times> 'a list" where
  "heappop lt heap =
     (if heap = [] then Inl IndexError
      else
        (let lastelt = last heap; heap1 = butlast heap in
         if heap1 \<noteq> [] then
           (case siftup lt (heap1[0 := lastelt]) 0 of
              Inl e \<Rightarrow> Inl e
            | Inr heap2 \<Rightarrow> Inr (heap1 ! 0, heap2))
         else Inr (lastelt, heap1)))"

lemma siftdown_loop_length:
  "siftdown_loop lt heap startpos pos newitem = Inr h \<Longrightarrow> length h = length heap"
proof (induction lt heap startpos pos newitem arbitrary: h rule: siftdown_loop.induct)
  case (1 lt heap startpos pos newitem)
  show ?case
  proof (cases "pos > startpos")
    case False
    with "1.prems" show ?thesis by (subst (asm) siftdown_loop.simps) auto
  next
    case True
    show ?thesis
    proof (cases "lt newitem (heap ! ((pos - 1) div 2))")
      case (Inl e)
      with True "1.prems" show ?thesis by (subst (asm) siftdown_loop.simps) simp
    next
      case (Inr b)
      show ?thesis
      proof (cases b)
        case True
        with \<open>pos > startpos\<close> Inr "1.prems"
        have "siftdown_loop lt (heap[pos := heap ! ((pos - 1) div 2)]) startpos
                ((pos - 1) div 2) newitem = Inr h"
          by (subst (asm) siftdown_loop.simps) simp
        from "1.IH" [OF \<open>pos > startpos\<close> Inr True this] show ?thesis by simp
      next
        case False
        with \<open>pos > startpos\<close> Inr "1.prems" show ?thesis
          by (subst (asm) siftdown_loop.simps) auto
      qed
    qed
  qed
qed

declare siftdown_loop.simps [simp del] siftup_loop.simps [simp del]

lemma siftup_loop_length:
  "siftup_loop lt heap endpos pos = Inr (h, p) \<Longrightarrow> length h = length heap"
proof (induction lt heap endpos pos arbitrary: h p rule: siftup_loop.induct)
  case (1 lt heap endpos pos)
  show ?case
  proof (cases "2 * pos + 1 < endpos")
    case False
    with "1.prems" show ?thesis by (simp add: siftup_loop.simps [of lt heap endpos pos])
  next
    case c1: True
    show ?thesis
    proof (cases "2 * pos + 2 < endpos")
      case False
      with c1 "1.prems" have "siftup_loop lt (heap[pos := heap ! (2 * pos + 1)]) endpos (2 * pos + 1) = Inr (h, p)"
        by (simp add: siftup_loop.simps [of lt heap endpos pos])
      from "1.IH"(3) [OF c1 False this] show ?thesis by simp
    next
      case c2: True
      show ?thesis
      proof (cases "lt (heap ! (2 * pos + 1)) (heap ! (2 * pos + 2))")
        case (Inl e)
        with c1 c2 "1.prems" show ?thesis by (simp add: siftup_loop.simps [of lt heap endpos pos])
      next
        case (Inr b)
        show ?thesis
        proof (cases b)
          case True
          with c1 c2 Inr "1.prems" have "siftup_loop lt (heap[pos := heap ! (2 * pos + 1)]) endpos (2 * pos + 1) = Inr (h, p)"
            by (simp add: siftup_loop.simps [of lt heap endpos pos])
          from "1.IH"(2) [OF c1 c2 Inr _ this] True show ?thesis by simp
        next
          case False
          with c1 c2 Inr "1.prems" have "siftup_loop lt (heap[pos := heap ! (2 * pos + 2)]) endpos (2 * pos + 2) = Inr (h, p)"
            by (simp add: siftup_loop.simps [of lt heap endpos pos])
          from "1.IH"(1) [OF c1 c2 Inr False this] show ?thesis by simp
        qed
      qed
    qed
  qed
qed

lemma heappop_length:
  assumes "heappop lt heap = Inr (x, h)"
  shows "length h < length heap"
proof (cases "heap = []")
  case True
  with assms show ?thesis by (simp add: heappop_def)
next
  case ne: False
  show ?thesis
  proof (cases "butlast heap = []")
    case True
    with ne assms show ?thesis by (auto simp: heappop_def Let_def)
  next
    case False
    with ne assms obtain h1 p1 where
      l: "siftup_loop lt ((butlast heap)[0 := last heap]) (length ((butlast heap)[0 := last heap])) 0 = Inr (h1, p1)"
      and d: "siftdown_loop lt (h1[p1 := ((butlast heap)[0 := last heap]) ! 0]) 0 p1 ((h1[p1 := ((butlast heap)[0 := last heap]) ! 0]) ! p1) = Inr h"
      by (auto simp: heappop_def Let_def siftup_def siftdown_def split: sum.splits prod.splits)
    from siftup_loop_length [OF l] siftdown_loop_length [OF d] ne show ?thesis by simp
  qed
qed

section \<open>Stream router (src/core/stream\_router.py)\<close>

text \<open>
  The heap holds tuples \<open>(epoch, item)\<close>. Python compares tuples lexicographically:
  the first position where the two differ (by \<open>==\<close>) decides with \<open><\<close>; for equal
  epochs that position is the tick dict, and \<open>dict < dict\<close> raises \<open>TypeError\<close>;
  two tuples that are equal in every position are not less than each other.
\<close>

definition lt_item :: "real \<times> tick \<Rightarrow> real \<times> tick \<Rightarrow> exn + bool" where
  "lt_item a b =
     (if fst a \<noteq> fst b then Inr (fst a < fst b)
      else if snd a = snd b then Inr False
      else Inl TypeError)"

text \<open>
  \<open>_flush_buffer\<close>: \<open>while buffer: _, event = heapq.heappop(buffer); await
  self.bus.publish("ORDERED_MARKET", event)\<close>. The result is the exception that ended
  the loop, if any, and the events published on \<open>ordered_topic\<close>, in order.
\<close>

function flush_buffer :: "(real \<times> tick) list \<Rightarrow> exn option \<times> tick list" where
  "flush_buffer buffer =
     (if buffer = [] then (None, [])
      else
        (case heappop lt_item buffer of
           Inl e \<Rightarrow> (Some e, [])
         | Inr (popped, buffer') \<Rightarrow>
             (case flush_buffer buffer' of (r, out) \<Rightarrow> (r, snd popped # out))))"
  by pat_completeness auto
termination
  by (relation "measure length") (auto dest: heappop_length)

declare flush_buffer.simps [simp del]

text \<open>
  The state of one \<open>_symbol_consumer\<close> task: its local heap \<open>buffer\<close>, the clock
  reading \<open>last_flush\<close>, and the events it has published so far.
\<close>

record consumer =
  buffer :: "(real \<times> tick) list"
  last_flush :: real
  emitted :: "tick list"

definition consumer_start :: "real \<Rightarrow> consumer" where
  "consumer_start t0 = \<lparr>buffer = [], last_flush = t0, emitted = []\<rparr>"

text \<open>
  \<open>epoch_of\<close>: \<open>datetime.fromisoformat(ts.replace("Z", "+00:00")).timestamp()\<close>, or
  \<open>time.time()\<close> when that raises.
\<close>

definition epoch_of :: "tick \<Rightarrow> real \<Rightarrow> real" where
  "epoch_of item now =
     (case tick_timestamp item of Some us \<Rightarrow> real_of_int us / 1000000 | None \<Rightarrow> now)"

text \<open>
  One iteration of the \<open>while True\<close> loop of \<open>_symbol_consumer\<close>, for the item
  \<open>q.get()\<close> returns (the items of one symbol, in the order \<open>on_raw\<close> put them on
  the queue) and the reading \<open>now\<close> of \<open>time.time()\<close> in that iteration; the
  fallback epoch of an unparseable timestamp is taken at the same reading. An exception
  ends the task: the result carries it, with the events published before it.
\<close>

definition symbol_consumer_step ::
  "real \<Rightarrow> consumer \<Rightarrow> tick \<times> real \<Rightarrow> exn option \<times> consumer" where
  "symbol_consumer_step buffer_ms st arrival =
     (case arrival of
        (item, now) \<Rightarrow>
          (case heappush lt_item (buffer st) (epoch_of item now, item) of
             Inl e \<Rightarrow> (Some e, st)
           | Inr buf \<Rightarrow>
               if (now - last_flush st) * 1000 \<ge> buffer_ms \<or> length buf > 50 then
                 (case flush_buffer buf of
                    (None, out) \<Rightarrow>
                      (None, \<lparr>buffer = [], last_flush = now, emitted = emitted st @ out\<rparr>)
                  | (Some e, out) \<Rightarrow> (Some e, st\<lparr>emitted := emitted st @ out\<rparr>))
               else (None, st\<lparr>buffer := buf\<rparr>)))"

fun symbol_consumer ::
  "real \<Rightarrow> consumer \<Rightarrow> (tick \<times> real) list \<Rightarrow> exn option \<times> consumer" where
  "symbol_consumer buffer_ms st [] = (None, st)"
| "symbol_consumer buffer_ms st (a # as) =
     (case symbol_consumer_step buffer_ms st a of
        (Some e, st') \<Rightarrow> (Some e, st')
      | (None, st') \<Rightarrow> symbol_consumer buffer_ms st' as)"

text \<open>
  What every iteration keeps when the keys in the heap are pairwise distinct: the list
  is a binary heap on the epochs.
\<close>

definition total_on :: "('a \<Rightarrow> 'a \<Rightarrow> exn + bool) \<Rightarrow> ('a \<Rightarrow> 'k::linorder) \<Rightarrow> 'a set \<Rightarrow> bool" where
  "total_on lt key S = (\<forall>x\<in>S. \<forall>y\<in>S. lt x y = Inr (key x < key y))"

definition heap_ordered :: "('a \<Rightarrow> 'k::linorder) \<Rightarrow> 'a list \<Rightarrow> bool" where
  "heap_ordered key h = (\<forall>i<length h. 0 < i \<longrightarrow> key (h ! ((i - 1) div 2)) \<le> key (h ! i))"

definition consumer_ok :: "consumer \<Rightarrow> bool" where
  "consumer_ok st = (heap_ordered fst (buffer st) \<and> distinct (map fst (buffer st)))"

text \<open>Every buffered tick has a timestamp that parses, which is its key in the heap.\<close>

definition keyed_by_timestamp :: "(real \<times> tick) list \<Rightarrow> bool" where
  "keyed_by_timestamp buf =
     (\<forall>p \<in> set buf. tick_timestamp (snd p) \<noteq> None \<and> fst p = epoch_of (snd p) 0)"

text \<open>A BTCUSDT tick with the given timestamp (microseconds) and price.\<close>

definition tick_at :: "int \<Rightarrow> real \<Rightarrow> tick" where
  "tick_at us p = \<lparr>tick_source = ''BINANCE'', tick_symbol = ''BTCUSDT'', tick_price = Some p,
     tick_volume = Some 1, tick_timestamp = Some us\<rparr>"

section \<open>Candlestick aggregator (src/utils/candlestick\_aggregator.py)\<close>

text \<open>
  \<open>str.upper()\<close> and \<open>str.lower()\<close> on ASCII text: a letter changes case by
  subtracting, or adding, 32 to its code, which is bit 5 of the character.
\<close>

definition upper_char :: "char \<Rightarrow> char" where
  "upper_char c =
     (if 97 \<le> (of_char c :: nat) \<and> (of_char c :: nat) \<le> 122
      then (case c of Char b0 b1 b2 b3 b4 b5 b6 b7 \<Rightarrow> Char b0 b1 b2 b3 b4 False b6 b7)
      else c)"

definition lower_char :: "char \<Rightarrow> char" where
  "lower_char c =
     (if 65 \<le> (of_char c :: nat) \<and> (of_char c :: nat) \<le> 90
      then (case c of Char b0 b1 b2 b3 b4 b5 b6 b7 \<Rightarrow> Char b0 b1 b2 b3 b4 True b6 b7)
      else c)"

definition upper :: "string \<Rightarrow> string" where
  "upper s = map upper_char s"

definition lower :: "string \<Rightarrow> string" where
  "lower s = map lower_char s"

text \<open>
  \<open>int(s)\<close> for a string of decimal digits. Python's \<open>int\<close> also accepts a sign,
  surrounding white space and underscores; those spellings are read as a
  \<open>ValueError\<close> here.
\<close>

definition digit_of :: "char \<Rightarrow> int option" where
  "digit_of c =
     (if 48 \<le> (of_char c :: nat) \<and> (of_char c :: nat) \<le> 57
      then Some (int (of_char c) - 48) else None)"

fun digits_value :: "int \<Rightarrow> string \<Rightarrow> int option" where
  "digits_value acc [] = Some acc"
| "digits_value acc (c # cs) =
     (case digit_of c of None \<Rightarrow> None | Some d \<Rightarrow> digits_value (10 * acc + d) cs)"

definition int_of_str :: "string \<Rightarrow> exn + int" where
  "int_of_str s =
     (if s = [] then Inl ValueError
      else (case digits_value 0 s of None \<Rightarrow> Inl ValueError | Some n \<Rightarrow> Inr n))"

text \<open>A dict with insertion order: assigning to a key that is present keeps its place.\<close>

fun dict_set :: "('k \<times> 'v) list \<Rightarrow> 'k \<Rightarrow> 'v \<Rightarrow> ('k \<times> 'v) list" where
  "dict_set [] k v = [(k, v)]"
| "dict_set ((k', v') # kvs) k v =
     (if k' = k then (k, v) # kvs else (k', v') # dict_set kvs k v)"

text \<open>
  \<open>_parse_timeframes\<close>: the mapping from each timeframe string to its length in
  seconds.
\<close>

fun parse_timeframes :: "(string \<times> int) list \<Rightarrow> string list \<Rightarrow> exn + (string \<times> int) list" where
  "parse_timeframes mapping [] = Inr mapping"
| "parse_timeframes mapping (tf # tfs) =
     (if tf \<noteq> [] \<and> last tf = CHR ''m'' then
        (case int_of_str (butlast tf) of
           Inl e \<Rightarrow> Inl e
         | Inr n \<Rightarrow> parse_timeframes (dict_set mapping tf (n * 60)) tfs)
      else if tf \<noteq> [] \<and> last tf = CHR ''h'' then
        (case int_of_str (butlast tf) of
           Inl e \<Rightarrow> Inl e
         | Inr n \<Rightarrow> parse_timeframes (dict_set mapping tf (n * 3600)) tfs)
      else Inl ValueError)"

text \<open>
  A \<open>datetime\<close> in UTC is its number of microseconds since the epoch. Its
  \<open>minute\<close> and \<open>second\<close> fields, and \<open>replace(second=0, microsecond=0)\<close>:
\<close>

definition minute_of :: "int \<Rightarrow> int" where
  "minute_of ts = (ts div 60000000) mod 60"

definition second_of :: "int \<Rightarrow> int" where
  "second_of ts = (ts div 1000000) mod 60"

definition replace_second_microsecond_0 :: "int \<Rightarrow> int" where
  "replace_second_microsecond_0 ts = ts - ts mod 60000000"

text \<open>
  \<^verbatim>\<open>
  def _get_bucket_start(self, ts, secs):
      ts = ts.replace(second=0, microsecond=0)
      delta = (ts.minute * 60 + ts.second) % secs
      return ts - timedelta(seconds=delta)
  \<close>
\<close>

definition get_bucket_start :: "int \<Rightarrow> int \<Rightarrow> exn + int" where
  "get_bucket_start ts secs =
     (let ts1 = replace_second_microsecond_0 ts in
      if secs = 0 then Inl ZeroDivisionError
      else
        (let delta = (minute_of ts1 * 60 + second_of ts1) mod secs
         in Inr (ts1 - delta * 1000000)))"

record candle =
  c_start :: int
  c_tf :: string
  c_open :: real
  c_high :: real
  c_low :: real
  c_close :: real
  c_volume :: real

text \<open>
  \<open>self.buffers\<close> is a \<open>defaultdict\<close> of \<open>defaultdict(list)\<close>: the list of candles
  of each symbol and timeframe, the last one being the open candle; a pair never seen
  reads as the empty list.
\<close>

type_synonym buffers = "string \<Rightarrow> string \<Rightarrow> candle list"

record aggregator =
  timeframes :: "(string \<times> int) list"
  buffers :: buffers

text \<open>
  The body of the \<open>for tf, secs in self.timeframes.items()\<close> loop of \<open>update_tick\<close>,
  for one timeframe: the new list of candles of (symbol, tf) and the candle it closes,
  if any. The closed candle is the dict that stays in the list (\<open>buf[-1]["tf"] = tf\<close>
  writes to both); it is not written again, a later tick only touches the new last
  element.
\<close>

definition update_buffer ::
  "candle list \<Rightarrow> string \<Rightarrow> int \<Rightarrow> real \<Rightarrow> real \<Rightarrow> candle list \<times> candle list" where
  "update_buffer buf tf bucket_start price volume =
     (if buf = [] \<or> c_start (last buf) \<noteq> bucket_start then
        ((if buf \<noteq> [] then butlast buf @ [(last buf)\<lparr>c_tf := tf\<rparr>] else buf)
           @ [\<lparr>c_start = bucket_start, c_tf = tf, c_open = price, c_high = price,
                c_low = price, c_close = price, c_volume = volume\<rparr>],
         if buf \<noteq> [] then [(last buf)\<lparr>c_tf := tf\<rparr>] else [])
      else
        (butlast buf @ [(last buf)\<lparr>c_high := max (c_high (last buf)) price,
                                    c_low := min (c_low (last buf)) price,
                                    c_close := price,
                                    c_volume := c_volume (last buf) + volume\<rparr>],
         []))"

text \<open>
  \<open>update_tick\<close>: the loop over the timeframes. The result is the exception that
  ended it, if any, the buffers, and the list \<open>finished\<close>.
\<close>

fun update_tick_loop ::
  "(string \<times> int) list \<Rightarrow> buffers \<Rightarrow> candle list \<Rightarrow> string \<Rightarrow> real \<Rightarrow> real \<Rightarrow> int
     \<Rightarrow> exn option \<times> buffers \<times> candle list" where
  "update_tick_loop [] bufs finished symbol price volume timestamp = (None, bufs, finished)"
| "update_tick_loop ((tf, secs) # rest) bufs finished symbol price volume timestamp =
     (case get_bucket_start timestamp secs of
        Inl e \<Rightarrow> (Some e, bufs, finished)
      | Inr bucket_start \<Rightarrow>
          (case update_buffer (bufs symbol tf) tf bucket_start price volume of
             (buf', closing) \<Rightarrow>
               update_tick_loop rest (bufs(symbol := (bufs symbol)(tf := buf')))
                 (finished @ closing) symbol price volume timestamp))"

definition update_tick ::
  "aggregator \<Rightarrow> string \<Rightarrow> real \<Rightarrow> real \<Rightarrow> int \<Rightarrow> exn option \<times> aggregator \<times> candle list" where
  "update_tick agg symbol price volume timestamp =
     (case update_tick_loop (timeframes agg) (buffers agg) [] symbol price volume timestamp of
        (r, bufs, finished) \<Rightarrow> (r, agg\<lparr>buffers := bufs\<rparr>, finished))"

text \<open>The \<open>MARKET_SNAPSHOT\<close> message that \<open>on_tick\<close> publishes for a closed candle.\<close>

record payload =
  p_open :: "real option"
  p_high :: "real option"
  p_low :: "real option"
  p_close :: "real option"
  p_price :: "real option"
  p_volume :: "real option"

record market_msg =
  msg_timestamp :: int
  msg_source :: string
  msg_symbol :: string
  msg_timeframe :: string
  msg_payload :: payload

definition candle_msg :: "tick \<Rightarrow> string \<Rightarrow> candle \<Rightarrow> market_msg" where
  "candle_msg tk symbol c =
     \<lparr>msg_timestamp = c_start c, msg_source = tick_source tk, msg_symbol = symbol,
      msg_timeframe = c_tf c,
      msg_payload = \<lparr>p_open = Some (c_open c), p_high = Some (c_high c), p_low = Some (c_low c),
                      p_close = Some (c_close c), p_price = None,
                      p_volume = Some (c_volume c)\<rparr>\<rparr>"

text \<open>
  \<open>on_tick\<close>: a tick whose timestamp or price cannot be read is dropped; otherwise
  the candles closed by the tick are published, in order. The result is the exception
  raised, if any, the aggregator, and the messages published on \<open>MARKET_SNAPSHOT\<close>.
\<close>

definition on_tick :: "aggregator \<Rightarrow> tick \<Rightarrow> exn option \<times> aggregator \<times> market_msg list" where
  "on_tick agg tk =
     (case (tick_timestamp tk, tick_price tk) of
        (Some ts, Some price) \<Rightarrow>
          (case update_tick agg (upper (tick_symbol tk)) price
                  (case tick_volume tk of None \<Rightarrow> 0 | Some v \<Rightarrow> v) ts of
             (Some e, agg', finished) \<Rightarrow> (Some e, agg', [])
           | (None, agg', finished) \<Rightarrow>
               (None, agg', map (candle_msg tk (upper (tick_symbol tk))) finished))
      | _ \<Rightarrow> (None, agg, []))"

definition CandlestickAggregator_new :: "string list \<Rightarrow> exn + aggregator" where
  "CandlestickAggregator_new tfs =
     (case parse_timeframes [] tfs of
        Inl e \<Rightarrow> Inl e
      | Inr mapping \<Rightarrow> Inr \<lparr>timeframes = mapping, buffers = (\<lambda>symbol tf. [])\<rparr>)"


text \<open>The shape of a candle: the high is at least, and the low at most, both open and close.\<close>

definition candle_ok :: "candle \<Rightarrow> bool" where
  "candle_ok c = (max (c_open c) (c_close c) \<le> c_high c \<and> c_low c \<le> min (c_open c) (c_close c))"

section \<open>Signals, orders and fills\<close>

text \<open>
  The attribution payload \<open>meta\<close> is a dict; its entries that the code reads are
  \<open>alpha\<close>, \<open>exchange\<close>, \<open>weights\<close> and \<open>scores\<close>. \<open>None\<close> is an absent key (for
  \<open>scores\<close>: absent, or not a dict). The empty dict is \<open>empty_meta\<close>.
\<close>

record meta =
  m_alpha :: "string option"
  m_exchange :: "string option"
  m_weights :: "(string \<rightharpoonup> real) option"
  m_scores :: "(string \<rightharpoonup> real) option"

definition empty_meta :: meta where
  "empty_meta = \<lparr>m_alpha = None, m_exchange = None, m_weights = None, m_scores = None\<rparr>"

text \<open>\<open>m or {}\<close> for a dict \<open>m\<close>: the empty dict is falsy.\<close>

definition or_empty :: "meta \<Rightarrow> meta" where
  "or_empty m = (if m = empty_meta then empty_meta else m)"

text \<open>
  A signal is a dict; \<open>None\<close> is an absent key (for \<open>sig_meta\<close>: absent or \<open>None\<close>).
\<close>

record signal =
  sig_symbol :: "string option"
  sig_direction :: "string option"
  sig_score :: "real option"
  sig_price :: "real option"
  sig_meta :: "meta option"

text \<open>
  Modelled from the spec: \<open>Order\<close> and \<open>Fill\<close> are declared in src/core/schemas.py,
  which is not among the source files; their fields are those the spec's data model
  lists and the constructor calls in portfolio\_handler.py and
  order\_execution\_handler.py pass. An order id is the text \<open>ORD-\<close> followed by a
  clock reading: \<open>ORD n\<close> stands for \<open>f"ORD-{t:.6f}"\<close> where \<open>n\<close> is the reading
  \<open>t\<close> of \<open>datetime.utcnow().timestamp()\<close> in microseconds.
\<close>

datatype order_id = ORD int

record order =
  ord_symbol :: string
  ord_quantity :: real
  ord_direction :: string
  ord_price :: real
  ord_id :: order_id
  ord_meta :: meta

record fill =
  fill_symbol :: string
  fill_quantity :: real
  fill_direction :: string
  fill_price :: real
  fill_timestamp :: int
  fill_commission :: real
  fill_order_id :: order_id
  fill_meta :: meta

section \<open>Strategy blender (src/strategy/multi\_strategy\_manager.py)\<close>




text \<open>
  Reading \<open>d[k]\<close> in a \<open>defaultdict\<close> whose factory gives \<open>dflt\<close>: the value read, and
  the dict after the read (a missing key is inserted).
\<close>

definition dd_get :: "'v \<Rightarrow> ('k \<rightharpoonup> 'v) \<Rightarrow> 'k \<Rightarrow> 'v" where
  "dd_get dflt d k = (case d k of None \<Rightarrow> dflt | Some v \<Rightarrow> v)"

definition dd_touch :: "'v \<Rightarrow> ('k \<rightharpoonup> 'v) \<Rightarrow> 'k \<Rightarrow> ('k \<rightharpoonup> 'v)" where
  "dd_touch dflt d k = (case d k of None \<Rightarrow> d(k \<mapsto> dflt) | Some v \<Rightarrow> d)"





definition or_else :: "real option \<Rightarrow> real \<Rightarrow> real" where
  "or_else v d = (case v of None \<Rightarrow> d | Some x \<Rightarrow> x)"






section \<open>Portfolio ledger (src/portfolio/portfolio\_handler.py)\<close>

definition MIN_TRADE_UNITS :: real where
  "MIN_TRADE_UNITS = 1 / 1000000"

definition DELTA_THRESHOLD :: real where
  "DELTA_THRESHOLD = 0.0004"

definition DEFAULT_MAX_UNITS :: real where
  "DEFAULT_MAX_UNITS = 0.01"

record portfolio =
  cash :: real
  positions :: "string \<rightharpoonup> real"
  last_prices :: "string \<rightharpoonup> real"
  max_units :: "string \<rightharpoonup> real"
  alpha_virtual_pos :: "string \<rightharpoonup> (string \<rightharpoonup> real)"

definition PortfolioHandler_new :: "real \<Rightarrow> (string \<rightharpoonup> real) option \<Rightarrow> portfolio" where
  "PortfolioHandler_new initial_cash mu =
     \<lparr>cash = initial_cash, positions = Map.empty, last_prices = Map.empty,
      max_units = (case mu of None \<Rightarrow> Map.empty | Some d \<Rightarrow> d),
      alpha_virtual_pos = Map.empty\<rparr>"

text \<open>
  The meta that \<open>on_signal\<close> attaches to the order: \<open>signal.get("meta") or {}\<close>, with
  \<open>scores\<close> set to \<open>{"GENERIC": score}\<close> when it has no non-empty \<open>scores\<close> dict.
\<close>

definition order_meta_of :: "meta option \<Rightarrow> real \<Rightarrow> meta" where
  "order_meta_of mo score =
     (let m = (case mo of None \<Rightarrow> empty_meta | Some m' \<Rightarrow> or_empty m') in
      case m_scores m of
        None \<Rightarrow> m\<lparr>m_scores := Some [''GENERIC'' \<mapsto> score]\<rparr>
      | Some sc \<Rightarrow>
          if sc = Map.empty then m\<lparr>m_scores := Some [''GENERIC'' \<mapsto> score]\<rparr> else m)"

text \<open>
  \<open>on_signal\<close>, with the clock reading \<open>now\<close> (microseconds) that names the order.
  A missing \<open>symbol\<close> or \<open>price\<close> raises \<open>KeyError\<close>, which the handler prints and
  re-raises. The result is the exception raised, if any, the ledger, and the orders
  published on \<open>ORDER\<close>.
\<close>

definition on_signal ::
  "portfolio \<Rightarrow> int \<Rightarrow> signal \<Rightarrow> exn option \<times> portfolio \<times> order list" where
  "on_signal pf now sg =
     (if sig_direction sg \<noteq> Some ''TARGET'' then (None, pf, [])
      else
        (case (sig_symbol sg, sig_price sg) of
           (Some raw_symbol, Some price) \<Rightarrow>
             (let symbol = upper raw_symbol;
                  score = or_else (sig_score sg) 0;
                  meta = order_meta_of (sig_meta sg) score;
                  pf1 = pf\<lparr>last_prices := (last_prices pf)(symbol \<mapsto> price),
                           max_units := dd_touch DEFAULT_MAX_UNITS (max_units pf) symbol,
                           positions := dd_touch 0 (positions pf) symbol\<rparr>;
                  target = max (- 1) (min 1 score) * dd_get DEFAULT_MAX_UNITS (max_units pf) symbol;
                  current = dd_get 0 (positions pf) symbol;
                  delta = target - current
              in
              if \<bar>delta\<bar> < max DELTA_THRESHOLD MIN_TRADE_UNITS then (None, pf1, [])
              else
                (None, pf1,
                 [\<lparr>ord_symbol = symbol, ord_quantity = \<bar>delta\<bar>,
                   ord_direction = (if delta > 0 then ''BUY'' else ''SELL''),
                   ord_price = price, ord_id = ORD now, ord_meta = meta\<rparr>]))
         | _ \<Rightarrow> (Some KeyError, pf, [])))"

text \<open>
  \<open>on_fill\<close>: position, mark price, cash and the per-alpha virtual positions. The rows
  it writes to the logs and the \<open>PORTFOLIO_MARK\<close> and \<open>ALPHA_PNL_TICK\<close> events it
  publishes (inside \<open>try ... except Exception: pass\<close>) read the ledger and do not
  change it.
\<close>

definition fill_scores :: "meta \<Rightarrow> string \<rightharpoonup> real" where
  "fill_scores m = (case m_scores (or_empty m) of None \<Rightarrow> [''GENERIC'' \<mapsto> 1] | Some sc \<Rightarrow> sc)"

definition on_fill :: "portfolio \<Rightarrow> fill \<Rightarrow> portfolio" where
  "on_fill pf fl =
     (let symbol = upper (fill_symbol fl);
          price = fill_price fl;
          qty_signed = (if upper (fill_direction fl) = ''BUY''
                        then fill_quantity fl else - fill_quantity fl);
          trade_value = price * \<bar>fill_quantity fl\<bar>;
          commission = fill_commission fl
      in
      pf\<lparr>positions := (positions pf)(symbol \<mapsto> dd_get 0 (positions pf) symbol + qty_signed),
         last_prices := (last_prices pf)(symbol \<mapsto> price),
         cash := (if qty_signed > 0 then cash pf - (trade_value + commission)
                  else cash pf + (trade_value - commission)),
         alpha_virtual_pos := (\<lambda>alpha_name.
            case fill_scores (fill_meta fl) alpha_name of
              None \<Rightarrow> alpha_virtual_pos pf alpha_name
            | Some s \<Rightarrow>
                Some ((dd_get Map.empty (alpha_virtual_pos pf) alpha_name)
                        (symbol \<mapsto> dd_get 0 (dd_get Map.empty (alpha_virtual_pos pf) alpha_name) symbol
                                    + qty_signed * s)))\<rparr>)"

section \<open>Execution simulator (src/execution/order\_execution\_handler.py)\<close>

text \<open>
  \<open>has_bus\<close>: the handler was given an event bus (\<open>self.bus\<close> is not \<open>None\<close>);
  \<open>order_meta_table\<close> is the side-table \<open>self._order_meta\<close>.
\<close>

record execution =
  mode :: string
  has_bus :: bool
  slippage_bps :: real
  commission_bps :: real
  order_meta_table :: "order_id \<rightharpoonup> meta"

definition OrderExecutionHandler_new :: "string \<Rightarrow> bool \<Rightarrow> real \<Rightarrow> real \<Rightarrow> execution" where
  "OrderExecutionHandler_new md bus slippage commission =
     \<lparr>mode = lower md, has_bus = bus, slippage_bps = slippage, commission_bps = commission,
      order_meta_table = Map.empty\<rparr>"

text \<open>
  \<open>_simulate_fill\<close>, after the simulated latency, with the reading \<open>now\<close> of
  \<open>datetime.utcnow()\<close>. The result is the handler and the fills published on \<open>FILL\<close>.
\<close>

definition simulate_fill :: "execution \<Rightarrow> int \<Rightarrow> order \<Rightarrow> execution \<times> fill list" where
  "simulate_fill ex now od =
     (let slippage = (slippage_bps ex / 10000) * ord_price od;
          fprice = (if ord_direction od = ''BUY'' then ord_price od + slippage
                    else ord_price od - slippage);
          commission = (commission_bps ex / 10000) * (fprice * ord_quantity od);
          meta = (case order_meta_table ex (ord_id od) of None \<Rightarrow> empty_meta | Some m \<Rightarrow> m);
          ex' = ex\<lparr>order_meta_table := (order_meta_table ex)(ord_id od := None)\<rparr>;
          fl = \<lparr>fill_symbol = ord_symbol od, fill_quantity = ord_quantity od,
                fill_direction = ord_direction od, fill_price = fprice, fill_timestamp = now,
                fill_commission = commission, fill_order_id = ord_id od, fill_meta = meta\<rparr>
      in (ex', if has_bus ex then [fl] else []))"

definition execute_real :: "execution \<Rightarrow> int \<Rightarrow> order \<Rightarrow> execution \<times> fill list" where
  "execute_real ex now od = simulate_fill ex now od"

definition on_order :: "execution \<Rightarrow> int \<Rightarrow> order \<Rightarrow> execution \<times> fill list" where
  "on_order ex now od =
     (let ex1 = ex\<lparr>order_meta_table := (order_meta_table ex)(ord_id od \<mapsto> or_empty (ord_meta od))\<rparr>
      in if mode ex = ''paper'' \<or> mode ex = ''backtest'' then simulate_fill ex1 now od
         else execute_real ex1 now od)"

section \<open>The chain signal, order, fill, position\<close>

text \<open>
  One \<open>publish("SIGNAL", sg)\<close> on a bus where the ledger's \<open>on_signal\<close> and \<open>on_fill\<close>
  and the simulator's \<open>on_order\<close> are the subscribers of \<open>SIGNAL\<close>, \<open>FILL\<close> and
  \<open>ORDER\<close>. Every \<open>publish\<close> awaits its coroutine subscribers, so the order is
  executed and its fill applied before \<open>on_signal\<close> returns. The result is the
  exception raised, if any, the two components, and the orders published.
\<close>

fun apply_fills :: "portfolio \<Rightarrow> fill list \<Rightarrow> portfolio" where
  "apply_fills pf [] = pf"
| "apply_fills pf (fl # fls) = apply_fills (on_fill pf fl) fls"

fun execute_orders ::
  "portfolio \<times> execution \<Rightarrow> int \<Rightarrow> order list \<Rightarrow> portfolio \<times> execution" where
  "execute_orders (pf, ex) now [] = (pf, ex)"
| "execute_orders (pf, ex) now (od # ods) =
     (case on_order ex now od of
        (ex', fills) \<Rightarrow> execute_orders (apply_fills pf fills, ex') now ods)"

definition publish_signal ::
  "portfolio \<times> execution \<Rightarrow> int \<Rightarrow> signal
     \<Rightarrow> exn option \<times> (portfolio \<times> execution) \<times> order list" where
  "publish_signal sys now sg =
     (case on_signal (fst sys) now sg of
        (Some e, pf', orders) \<Rightarrow> (Some e, (pf', snd sys), orders)
      | (None, pf', orders) \<Rightarrow> (None, execute_orders (pf', snd sys) now orders, orders))"

fun publish_signals ::
  "portfolio \<times> execution \<Rightarrow> (int \<times> signal) list
     \<Rightarrow> exn option \<times> (portfolio \<times> execution) \<times> order list" where
  "publish_signals sys [] = (None, sys, [])"
| "publish_signals sys ((now, sg) # rest) =
     (case publish_signal sys now sg of
        (Some e, sys', orders) \<Rightarrow> (Some e, sys', orders)
      | (None, sys', orders) \<Rightarrow>
          (case publish_signals sys' rest of
             (r, sys'', orders') \<Rightarrow> (r, sys'', orders @ orders')))"

section \<open>Example inputs\<close>

text \<open>
  A signal for a symbol with a score and a meta, at price 100; a meta without
  \<open>scores\<close> and one with the score of one alpha; an aggregator configured with the
  timeframe \<open>2h\<close>; strategies that all return the same score.
\<close>

definition meta_x :: meta where
  "meta_x = \<lparr>m_alpha = Some ''x'', m_exchange = None, m_weights = None, m_scores = None\<rparr>"

definition meta_momentum :: "real \<Rightarrow> meta" where
  "meta_momentum s = \<lparr>m_alpha = None, m_exchange = None, m_weights = None,
     m_scores = Some [''MOMENTUM'' \<mapsto> s]\<rparr>"

definition signal_x :: "string \<Rightarrow> real \<Rightarrow> meta \<Rightarrow> signal" where
  "signal_x raw score m = \<lparr>sig_symbol = Some raw, sig_direction = Some ''TARGET'',
     sig_score = Some score, sig_price = Some 100, sig_meta = Some m\<rparr>"

definition agg_2h :: aggregator where
  "agg_2h = \<lparr>timeframes = [(''2h'', 7200)], buffers = (\<lambda>symbol tf. [])\<rparr>"


text \<open>
  \<open>targets symbol score sg\<close>: the signal \<open>sg\<close> is a \<open>TARGET\<close> for \<open>symbol\<close> (after
  upper-casing) with that score, and carries a price.
\<close>

definition targets :: "string \<Rightarrow> real \<Rightarrow> signal \<Rightarrow> bool" where
  "targets symbol score sg =
     (sig_direction sg = Some ''TARGET'' \<and> sig_price sg \<noteq> None
      \<and> (case sig_symbol sg of None \<Rightarrow> False | Some raw \<Rightarrow> upper raw = symbol)
      \<and> (case sig_score sg of None \<Rightarrow> 0 | Some s \<Rightarrow> s) = score)"

section \<open>heapq: the heap invariant\<close>


lemma mset_move:
  assumes "i < length h" "j < length h" "i \<noteq> j"
  shows "mset (h[i := h ! j, j := x]) = mset (h[i := x])"
proof -
  let ?g = "h[i := x]"
  have "mset (?g[i := ?g ! j, j := ?g ! i]) = mset ?g"
    using assms by (intro mset_swap) simp_all
  moreover have "?g[i := ?g ! j, j := ?g ! i] = h[i := h ! j, j := x]"
    using assms by simp
  ultimately show ?thesis by simp
qed

lemma siftdown_loop_mset:
  assumes "total_on lt key S" "set heap \<subseteq> S" "newitem \<in> S" "pos < length heap"
  shows "\<exists>h. siftdown_loop lt heap 0 pos newitem = Inr h \<and> mset h = mset (heap[pos := newitem])"
  using assms(2,4)
proof (induction pos arbitrary: heap rule: less_induct)
  case (less pos)
  show ?case
  proof (cases "pos > 0")
    case False
    then show ?thesis by (subst siftdown_loop.simps) simp
  next
    case True
    let ?pp = "(pos - 1) div 2"
    from True have pp: "?pp < pos" by simp
    with less.prems have ppn: "?pp < length heap" by simp
    with less.prems have "heap ! ?pp \<in> S" by auto
    with assms(1,3) have lt: "lt newitem (heap ! ?pp) = Inr (key newitem < key (heap ! ?pp))"
      by (simp add: total_on_def)
    show ?thesis
    proof (cases "key newitem < key (heap ! ?pp)")
      case False
      with True lt show ?thesis by (simp add: siftdown_loop.simps [of lt heap 0 pos])
    next
      case b: True
      let ?h1 = "heap[pos := heap ! ?pp]"
      have s1: "set ?h1 \<subseteq> S" using less.prems \<open>heap ! ?pp \<in> S\<close>
        by (meson insert_subset set_update_subset_insert subset_trans)
      have "?pp < length ?h1" using ppn by simp
      from less.IH [OF pp s1 this] obtain h where
        h: "siftdown_loop lt ?h1 0 ?pp newitem = Inr h" "mset h = mset (?h1[?pp := newitem])" by blast
      have "mset (?h1[?pp := newitem]) = mset (heap[pos := newitem])"
        using less.prems ppn pp by (intro mset_move) simp_all
      with h True lt b show ?thesis by (simp add: siftdown_loop.simps [of lt heap 0 pos])
    qed
  qed
qed

lemma siftdown_loop_ordered:
  assumes "total_on lt key S" "newitem \<in> S"
  shows "set heap \<subseteq> S \<Longrightarrow> pos < length heap \<Longrightarrow>
    \<forall>i<length heap. 0 < i \<and> i \<noteq> pos \<longrightarrow> key (heap ! ((i - 1) div 2)) \<le> key (heap ! i) \<Longrightarrow>
    \<forall>c<length heap. 0 < c \<and> (c - 1) div 2 = pos \<longrightarrow> key newitem \<le> key (heap ! c) \<Longrightarrow>
    0 < pos \<longrightarrow> (\<forall>c<length heap. 0 < c \<and> (c - 1) div 2 = pos \<longrightarrow>
       key (heap ! ((pos - 1) div 2)) \<le> key (heap ! c)) \<Longrightarrow>
    siftdown_loop lt heap 0 pos newitem = Inr h \<Longrightarrow> heap_ordered key h"
proof (induction pos arbitrary: heap rule: less_induct)
  case (less pos)
  note I1 = less.prems(3) and I2 = less.prems(4) and I3 = less.prems(5)
  have done_here: "heap_ordered key (heap[pos := newitem])"
    if "0 < pos \<longrightarrow> key (heap ! ((pos - 1) div 2)) \<le> key newitem"
    unfolding heap_ordered_def
  proof (intro allI impI)
    fix i assume i: "i < length (heap[pos := newitem])" "0 < i"
    then have pi: "(i - 1) div 2 < i" by simp
    show "key (heap[pos := newitem] ! ((i - 1) div 2)) \<le> key (heap[pos := newitem] ! i)"
    proof (cases "i = pos")
      case True
      with i pi that less.prems(2) show ?thesis by simp
    next
      case False
      show ?thesis
      proof (cases "(i - 1) div 2 = pos")
        case True
        with i False I2 less.prems(2) show ?thesis by simp
      next
        case np: False
        with i False I1 show ?thesis by simp
      qed
    qed
  qed
  show ?case
  proof (cases "pos > 0")
    case False
    with less.prems(6) have "h = heap[pos := newitem]"
      by (simp add: siftdown_loop.simps [of lt heap 0 pos])
    with False done_here show ?thesis by simp
  next
    case True
    let ?pp = "(pos - 1) div 2"
    from True have pp: "?pp < pos" by simp
    with less.prems have ppn: "?pp < length heap" by simp
    with less.prems have "heap ! ?pp \<in> S" by auto
    with assms have lt: "lt newitem (heap ! ?pp) = Inr (key newitem < key (heap ! ?pp))"
      by (simp add: total_on_def)
    show ?thesis
    proof (cases "key newitem < key (heap ! ?pp)")
      case False
      with True lt less.prems(6) have "h = heap[pos := newitem]"
        by (simp add: siftdown_loop.simps [of lt heap 0 pos])
      moreover from False have "key (heap ! ?pp) \<le> key newitem" by simp
      ultimately show ?thesis using done_here by blast
    next
      case b: True
      let ?h1 = "heap[pos := heap ! ?pp]"
      have s1: "set ?h1 \<subseteq> S" using less.prems(1) \<open>heap ! ?pp \<in> S\<close>
        by (meson insert_subset set_update_subset_insert subset_trans)
      have l1: "?pp < length ?h1" using ppn by simp
      from True lt b less.prems(6) have r: "siftdown_loop lt ?h1 0 ?pp newitem = Inr h"
        by (simp add: siftdown_loop.simps [of lt heap 0 pos])
      have J1: "\<forall>i<length ?h1. 0 < i \<and> i \<noteq> ?pp \<longrightarrow> key (?h1 ! ((i - 1) div 2)) \<le> key (?h1 ! i)"
      proof (intro allI impI)
        fix i assume i: "i < length ?h1" "0 < i \<and> i \<noteq> ?pp"
        show "key (?h1 ! ((i - 1) div 2)) \<le> key (?h1 ! i)"
        proof (cases "i = pos")
          case True
          with pp less.prems(2) show ?thesis by simp
        next
          case False
          show ?thesis
          proof (cases "(i - 1) div 2 = pos")
            case True
            with i False I3 \<open>pos > 0\<close> less.prems(2) show ?thesis by simp
          next
            case np: False
            with i False I1 show ?thesis by simp
          qed
        qed
      qed
      have J2: "\<forall>c<length ?h1. 0 < c \<and> (c - 1) div 2 = ?pp \<longrightarrow> key newitem \<le> key (?h1 ! c)"
      proof (intro allI impI)
        fix c assume c: "c < length ?h1" "0 < c \<and> (c - 1) div 2 = ?pp"
        show "key newitem \<le> key (?h1 ! c)"
        proof (cases "c = pos")
          case True
          with b less.prems(2) show ?thesis by simp
        next
          case False
          with c I1 have "key (heap ! ?pp) \<le> key (heap ! c)" by auto
          with b False show ?thesis by simp
        qed
      qed
      have J3: "0 < ?pp \<longrightarrow> (\<forall>c<length ?h1. 0 < c \<and> (c - 1) div 2 = ?pp \<longrightarrow>
          key (?h1 ! ((?pp - 1) div 2)) \<le> key (?h1 ! c))"
      proof (intro allI impI)
        fix c assume p0: "0 < ?pp" and c: "c < length ?h1" "0 < c \<and> (c - 1) div 2 = ?pp"
        from p0 have q: "(?pp - 1) div 2 < ?pp" by simp
        with pp have qne: "(?pp - 1) div 2 \<noteq> pos" by simp
        from I1 ppn p0 pp have g: "key (heap ! ((?pp - 1) div 2)) \<le> key (heap ! ?pp)" by simp
        show "key (?h1 ! ((?pp - 1) div 2)) \<le> key (?h1 ! c)"
        proof (cases "c = pos")
          case True
          with g qne less.prems(2) show ?thesis by simp
        next
          case False
          with c I1 have "key (heap ! ?pp) \<le> key (heap ! c)" by auto
          with g False qne show ?thesis by simp
        qed
      qed
      from less.IH [OF pp s1 l1 J1 J2 J3 r] show ?thesis .
    qed
  qed
qed

lemma siftup_loop_props:
  assumes "total_on lt key S"
  shows "set heap \<subseteq> S \<Longrightarrow> pos < length heap \<Longrightarrow>
    \<forall>i<length heap. 0 < i \<and> i \<noteq> pos \<and> (i - 1) div 2 \<noteq> pos \<longrightarrow>
       key (heap ! ((i - 1) div 2)) \<le> key (heap ! i) \<Longrightarrow>
    0 < pos \<longrightarrow> (\<forall>c<length heap. 0 < c \<and> (c - 1) div 2 = pos \<longrightarrow>
       key (heap ! ((pos - 1) div 2)) \<le> key (heap ! c)) \<Longrightarrow>
    \<exists>h p. siftup_loop lt heap (length heap) pos = Inr (h, p) \<and> length h = length heap
      \<and> p < length heap \<and> length heap \<le> 2 * p + 1 \<and> set h \<subseteq> S
      \<and> (\<forall>x. mset (h[p := x]) = mset (heap[pos := x]))
      \<and> (\<forall>i<length h. 0 < i \<and> i \<noteq> p \<and> (i - 1) div 2 \<noteq> p \<longrightarrow>
            key (h ! ((i - 1) div 2)) \<le> key (h ! i))"
proof (induction "length heap - pos" arbitrary: heap pos rule: less_induct)
  case less
  note J1 = less.prems(3) and J2 = less.prems(4)
  let ?n = "length heap"
  show ?case
  proof (cases "2 * pos + 1 < ?n")
    case False
    then have "siftup_loop lt heap ?n pos = Inr (heap, pos)"
      by (subst siftup_loop.simps) simp
    with False less.prems show ?thesis by simp
  next
    case c1: True
    have "\<exists>c. (c = 2 * pos + 1 \<or> c = 2 * pos + 2) \<and> c < ?n
        \<and> (\<forall>c'<?n. c' = 2 * pos + 1 \<or> c' = 2 * pos + 2 \<longrightarrow> key (heap ! c) \<le> key (heap ! c'))
        \<and> siftup_loop lt heap ?n pos = siftup_loop lt (heap[pos := heap ! c]) ?n c"
    proof (cases "2 * pos + 2 < ?n")
      case False
      with c1 have "siftup_loop lt heap ?n pos
          = siftup_loop lt (heap[pos := heap ! (2 * pos + 1)]) ?n (2 * pos + 1)"
        by (subst siftup_loop.simps) simp
      with c1 False show ?thesis by (intro exI [of _ "2 * pos + 1"]) auto
    next
      case c2: True
      let ?l = "heap ! (2 * pos + 1)" and ?r = "heap ! (2 * pos + 2)"
      from c1 c2 less.prems(1) have "?l \<in> S" "?r \<in> S" by auto
      with assms have lt: "lt ?l ?r = Inr (key ?l < key ?r)" by (simp add: total_on_def)
      show ?thesis
      proof (cases "key ?l < key ?r")
        case True
        with c1 c2 lt have "siftup_loop lt heap ?n pos
            = siftup_loop lt (heap[pos := ?l]) ?n (2 * pos + 1)"
          by (subst siftup_loop.simps) simp
        with c1 True show ?thesis by (intro exI [of _ "2 * pos + 1"]) auto
      next
        case False
        with c1 c2 lt have "siftup_loop lt heap ?n pos
            = siftup_loop lt (heap[pos := ?r]) ?n (2 * pos + 2)"
          by (subst siftup_loop.simps) simp
        with c2 False show ?thesis by (intro exI [of _ "2 * pos + 2"]) auto
      qed
    qed
    then obtain c where c: "c = 2 * pos + 1 \<or> c = 2 * pos + 2" "c < ?n"
      and small: "\<forall>c'<?n. c' = 2 * pos + 1 \<or> c' = 2 * pos + 2 \<longrightarrow> key (heap ! c) \<le> key (heap ! c')"
      and step: "siftup_loop lt heap ?n pos = siftup_loop lt (heap[pos := heap ! c]) ?n c"
      by blast
    let ?h1 = "heap[pos := heap ! c]"
    from c have cpos: "pos < c" "(c - 1) div 2 = pos" "0 < c" by auto
    have children: "i = 2 * pos + 1 \<or> i = 2 * pos + 2" if "0 < i" "(i - 1) div 2 = pos" for i
      using that by auto
    from c less.prems(1) have "heap ! c \<in> S" by auto
    then have s1: "set ?h1 \<subseteq> S" using less.prems(1)
      by (meson insert_subset set_update_subset_insert subset_trans)
    have m: "length ?h1 - c < ?n - pos" using cpos c by simp
    have l1: "c < length ?h1" using c by simp
    have K1: "\<forall>i<length ?h1. 0 < i \<and> i \<noteq> c \<and> (i - 1) div 2 \<noteq> c \<longrightarrow>
         key (?h1 ! ((i - 1) div 2)) \<le> key (?h1 ! i)"
    proof (intro allI impI)
      fix i assume i: "i < length ?h1" "0 < i \<and> i \<noteq> c \<and> (i - 1) div 2 \<noteq> c"
      then have pi: "(i - 1) div 2 < i" by auto
      show "key (?h1 ! ((i - 1) div 2)) \<le> key (?h1 ! i)"
      proof (cases "i = pos")
        case True
        with i pi J2 c cpos less.prems(2) show ?thesis by simp
      next
        case False
        show ?thesis
        proof (cases "(i - 1) div 2 = pos")
          case True
          with i children [of i] have "i = 2 * pos + 1 \<or> i = 2 * pos + 2" by simp
          with small i have "key (heap ! c) \<le> key (heap ! i)" by auto
          with True False less.prems(2) show ?thesis by simp
        next
          case np: False
          with i False J1 show ?thesis by simp
        qed
      qed
    qed
    have K2: "0 < c \<longrightarrow> (\<forall>d<length ?h1. 0 < d \<and> (d - 1) div 2 = c \<longrightarrow>
         key (?h1 ! ((c - 1) div 2)) \<le> key (?h1 ! d))"
    proof (intro allI impI)
      fix d assume d: "d < length ?h1" "0 < d \<and> (d - 1) div 2 = c"
      then have "c < d" by auto
      with cpos have dne: "d \<noteq> pos" by simp
      from d J1 dne cpos have "key (heap ! c) \<le> key (heap ! d)" by auto
      with dne cpos less.prems(2) show "key (?h1 ! ((c - 1) div 2)) \<le> key (?h1 ! d)" by simp
    qed
    from less.hyps [OF m s1 l1 K1 K2] obtain h p where
      r: "siftup_loop lt ?h1 (length ?h1) c = Inr (h, p)" "length h = length ?h1"
        "p < length ?h1" "length ?h1 \<le> 2 * p + 1" "set h \<subseteq> S"
        "\<forall>x. mset (h[p := x]) = mset (?h1[c := x])"
        "\<forall>i<length h. 0 < i \<and> i \<noteq> p \<and> (i - 1) div 2 \<noteq> p \<longrightarrow>
            key (h ! ((i - 1) div 2)) \<le> key (h ! i)"
      by blast
    have "mset (?h1[c := x]) = mset (heap[pos := x])" for x
      using less.prems(2) c cpos by (intro mset_move) simp_all
    with r step show ?thesis by simp
  qed
qed

lemma heap_ordered_root:
  assumes "heap_ordered key h"
  shows "i < length h \<Longrightarrow> key (h ! 0) \<le> key (h ! i)"
proof (induction i rule: less_induct)
  case (less i)
  show ?case
  proof (cases "i = 0")
    case True
    then show ?thesis by simp
  next
    case False
    then have p: "(i - 1) div 2 < i" by simp
    with less.prems have "(i - 1) div 2 < length h" by simp
    from less.IH [OF p this] have "key (h ! 0) \<le> key (h ! ((i - 1) div 2))" .
    moreover from assms less.prems False have "key (h ! ((i - 1) div 2)) \<le> key (h ! i)"
      by (simp add: heap_ordered_def)
    ultimately show ?thesis by simp
  qed
qed

lemma heappush_props:
  assumes "total_on lt key S" "set heap \<subseteq> S" "item \<in> S" "heap_ordered key heap"
  shows "\<exists>h. heappush lt heap item = Inr h \<and> mset h = add_mset item (mset heap)
     \<and> heap_ordered key h"
proof -
  let ?g = "heap @ [item]" and ?n = "length heap"
  have s: "set ?g \<subseteq> S" using assms by simp
  have l: "?n < length ?g" by simp
  from siftdown_loop_mset [OF assms(1) s assms(3) l] obtain h where
    h: "siftdown_loop lt ?g 0 ?n item = Inr h" "mset h = mset (?g[?n := item])" by blast
  have I1: "\<forall>i<length ?g. 0 < i \<and> i \<noteq> ?n \<longrightarrow> key (?g ! ((i - 1) div 2)) \<le> key (?g ! i)"
  proof (intro allI impI)
    fix i assume i: "i < length ?g" "0 < i \<and> i \<noteq> ?n"
    then have "i < ?n" "(i - 1) div 2 < ?n" by auto
    with assms(4) i show "key (?g ! ((i - 1) div 2)) \<le> key (?g ! i)"
      by (simp add: heap_ordered_def nth_append)
  qed
  have leaf: "\<not> (c < length ?g \<and> 0 < c \<and> (c - 1) div 2 = ?n)" for c by auto
  then have I2: "\<forall>c<length ?g. 0 < c \<and> (c - 1) div 2 = ?n \<longrightarrow> key item \<le> key (?g ! c)"
    and I3: "0 < ?n \<longrightarrow> (\<forall>c<length ?g. 0 < c \<and> (c - 1) div 2 = ?n \<longrightarrow>
       key (?g ! ((?n - 1) div 2)) \<le> key (?g ! c))" by blast+
  from siftdown_loop_ordered [OF assms(1,3) s l I1 I2 I3 h(1)] have "heap_ordered key h" .
  with h show ?thesis by (simp add: heappush_def siftdown_def)
qed

lemma heappop_props:
  assumes "total_on lt key S" "set heap \<subseteq> S" "heap \<noteq> []" "heap_ordered key heap"
  shows "\<exists>h. heappop lt heap = Inr (heap ! 0, h) \<and> mset heap = add_mset (heap ! 0) (mset h)
     \<and> heap_ordered key h"
proof (cases "butlast heap = []")
  case True
  with assms(3) obtain x where "heap = [x]" by (cases heap) (auto split: if_splits)
  then show ?thesis by (simp add: heappop_def heap_ordered_def)
next
  case False
  let ?b = "butlast heap" and ?x = "last heap"
  let ?g = "?b[0 := ?x]"
  have hb: "heap = ?b @ [?x]" using assms(3) by simp
  have g0: "?g ! 0 = ?x" using False by (metis length_greater_0_conv nth_list_update_eq)
  have b0: "?b ! 0 = heap ! 0" using False
    by (metis length_greater_0_conv nth_butlast)
  have sg: "set ?g \<subseteq> S"
  proof -
    have "set ?b \<subseteq> S" using assms(2) by (meson in_set_butlastD subsetD subsetI)
    moreover have "?x \<in> S" using assms(2,3) by auto
    ultimately show ?thesis by (meson insert_subset set_update_subset_insert subset_trans)
  qed
  have lb: "0 < length ?b" using False by (metis length_greater_0_conv)
  then have lh: "Suc 0 < length heap" by simp
  have lg: "0 < length ?g" using lb by simp
  have J1: "\<forall>i<length ?g. 0 < i \<and> i \<noteq> 0 \<and> (i - 1) div 2 \<noteq> 0 \<longrightarrow>
       key (?g ! ((i - 1) div 2)) \<le> key (?g ! i)"
  proof (intro allI impI)
    fix i assume i: "i < length ?g" "0 < i \<and> i \<noteq> 0 \<and> (i - 1) div 2 \<noteq> 0"
    then have "i < length heap" "(i - 1) div 2 < length ?b" "i < length ?b" by auto
    with assms(4) i show "key (?g ! ((i - 1) div 2)) \<le> key (?g ! i)"
      by (simp add: heap_ordered_def nth_butlast)
  qed
  have J2: "0 < (0::nat) \<longrightarrow> (\<forall>c<length ?g. 0 < c \<and> (c - 1) div 2 = 0 \<longrightarrow>
       key (?g ! ((0 - 1) div 2)) \<le> key (?g ! c))" by simp
  from siftup_loop_props [OF assms(1) sg lg J1 J2] obtain h1 p1 where
    r: "siftup_loop lt ?g (length ?g) 0 = Inr (h1, p1)" "length h1 = length ?g"
      "p1 < length ?g" "length ?g \<le> 2 * p1 + 1" "set h1 \<subseteq> S"
      "\<forall>x. mset (h1[p1 := x]) = mset (?g[0 := x])"
      "\<forall>i<length h1. 0 < i \<and> i \<noteq> p1 \<and> (i - 1) div 2 \<noteq> p1 \<longrightarrow>
            key (h1 ! ((i - 1) div 2)) \<le> key (h1 ! i)"
    by blast
  let ?k = "h1[p1 := ?x]"
  have xs: "?x \<in> S" using assms(2,3) by auto
  have sk: "set ?k \<subseteq> S" using r(5) xs
    by (meson insert_subset set_update_subset_insert subset_trans)
  have lk: "p1 < length ?k" using r by simp
  from siftdown_loop_mset [OF assms(1) sk xs lk] obtain h where
    h: "siftdown_loop lt ?k 0 p1 ?x = Inr h" "mset h = mset (?k[p1 := ?x])" by blast
  have leaf: "\<not> (c < length ?k \<and> 0 < c \<and> (c - 1) div 2 = p1)" for c
    using r(2,4) by auto
  have I1: "\<forall>i<length ?k. 0 < i \<and> i \<noteq> p1 \<longrightarrow> key (?k ! ((i - 1) div 2)) \<le> key (?k ! i)"
  proof (intro allI impI)
    fix i assume i: "i < length ?k" "0 < i \<and> i \<noteq> p1"
    with leaf [of i] have "(i - 1) div 2 \<noteq> p1" by blast
    with i r(7) show "key (?k ! ((i - 1) div 2)) \<le> key (?k ! i)" by simp
  qed
  from leaf have I2: "\<forall>c<length ?k. 0 < c \<and> (c - 1) div 2 = p1 \<longrightarrow> key ?x \<le> key (?k ! c)"
    and I3: "0 < p1 \<longrightarrow> (\<forall>c<length ?k. 0 < c \<and> (c - 1) div 2 = p1 \<longrightarrow>
       key (?k ! ((p1 - 1) div 2)) \<le> key (?k ! c))" by blast+
  from siftdown_loop_ordered [OF assms(1) xs sk lk I1 I2 I3 h(1)] have ord: "heap_ordered key h" .
  have "mset h = mset ?g" using h(2) r(6) g0 by (metis list_update_id list_update_overwrite)
  also have "add_mset (heap ! 0) (mset ?g) = mset heap"
  proof -
    have "mset ?g = add_mset ?x (mset ?b - {#?b ! 0#})"
      using lb by (rule mset_update)
    moreover have "?b ! 0 \<in># mset ?b" using lb by (metis nth_mem_mset)
    ultimately have "add_mset (heap ! 0) (mset ?g) = add_mset ?x (mset ?b)"
      using b0 by simp
    also have "\<dots> = mset heap" by (subst (2) hb) simp
    finally show ?thesis .
  qed
  finally have ms: "mset heap = add_mset (heap ! 0) (mset h)" by simp
  have "heappop lt heap = Inr (heap ! 0, h)"
    using assms(3) False r(1) h(1) g0 b0 lk
    by (simp add: heappop_def siftup_def siftdown_def Let_def)
  with ms ord show ?thesis by blast
qed

section \<open>Event bus: exceptions of subscribers\<close>

lemma invoke_subscribers_tasks:
  "fst (invoke_subscribers cbs d w) = filter iscoroutinefunction cbs"
proof (induction cbs arbitrary: w)
  case Nil
  then show ?case by simp
next
  case (Cons cb cbs)
  show ?case
  proof (cases "iscoroutinefunction cb")
    case True
    obtain ts lg w' where i: "invoke_subscribers cbs d w = (ts, lg, w')"
      by (cases "invoke_subscribers cbs d w")
    with True Cons.IH [of w] show ?thesis by simp
  next
    case False
    obtain r w1 where b: "body cb d w = (r, w1)" by (cases "body cb d w")
    obtain ts lg w' where i: "invoke_subscribers cbs d w1 = (ts, lg, w')"
      by (cases "invoke_subscribers cbs d w1")
    with b False Cons.IH [of w1] show ?thesis by simp
  qed
qed










section \<open>Stream router: ordering and exceptions\<close>

lemma total_on_lt_item:
  assumes "distinct (map fst xs)"
  shows "total_on lt_item fst (set xs)"
proof -
  from assms have "inj_on fst (set xs)" by (simp add: distinct_map)
  then have eq: "x = y" if "x \<in> set xs" "y \<in> set xs" "fst x = fst y" for x y
    using that by (blast dest: inj_onD)
  show ?thesis
    unfolding total_on_def
  proof (intro ballI)
    fix x y assume xy: "x \<in> set xs" "y \<in> set xs"
    show "lt_item x y = Inr (fst x < fst y)"
    proof (cases "fst x = fst y")
      case True
      with eq [OF xy] have "x = y" by simp
      then show ?thesis by (simp add: lt_item_def)
    next
      case False
      then show ?thesis by (simp add: lt_item_def)
    qed
  qed
qed

lemma flush_buffer_sorted:
  assumes "total_on lt_item fst S"
  shows "set buf \<subseteq> S \<Longrightarrow> heap_ordered fst buf \<Longrightarrow>
    \<exists>batch. flush_buffer buf = (None, map snd batch) \<and> mset batch = mset buf
      \<and> sorted (map fst batch)"
proof (induction "length buf" arbitrary: buf rule: less_induct)
  case less
  show ?case
  proof (cases "buf = []")
    case True
    then have "flush_buffer buf = (None, map snd [])" by (subst flush_buffer.simps) simp
    with True show ?thesis by (intro exI [of _ "[]"]) simp
  next
    case False
    from heappop_props [OF assms less.prems(1) False less.prems(2)] obtain h where
      h: "heappop lt_item buf = Inr (buf ! 0, h)" "mset buf = add_mset (buf ! 0) (mset h)"
        "heap_ordered fst h" by blast
    from h(2) have "set_mset (mset buf) = set_mset (add_mset (buf ! 0) (mset h))" by simp
    then have sub: "set h \<subseteq> set buf" by auto
    with less.prems(1) have hS: "set h \<subseteq> S" by blast
    from h(1) have "length h < length buf" by (rule heappop_length)
    from less.hyps [OF this hS h(3)] obtain batch where
      b: "flush_buffer h = (None, map snd batch)" "mset batch = mset h" "sorted (map fst batch)"
      by blast
    have "\<forall>x \<in> set batch. fst (buf ! 0) \<le> fst x"
    proof
      fix x assume "x \<in> set batch"
      moreover from b(2) have "set batch = set h" by (rule mset_eq_setD)
      ultimately have "x \<in> set h" by simp
      with sub have "x \<in> set buf" by blast
      then obtain i where "i < length buf" "buf ! i = x" by (auto simp: in_set_conv_nth)
      with heap_ordered_root [OF less.prems(2), of i] show "fst (buf ! 0) \<le> fst x" by simp
    qed
    with b(3) have "sorted (map fst (buf ! 0 # batch))" by simp
    moreover have "mset (buf ! 0 # batch) = mset buf" using b(2) h(2) by simp
    moreover have "flush_buffer buf = (None, map snd (buf ! 0 # batch))"
      using False h(1) b(1) by (subst flush_buffer.simps) simp
    ultimately show ?thesis by blast
  qed
qed

lemma symbol_consumer_step_ok:
  assumes "consumer_ok st" and "epoch_of item now \<notin> fst ` set (buffer st)"
  shows "\<exists>st'. symbol_consumer_step buffer_ms st (item, now) = (None, st') \<and> consumer_ok st'
    \<and> (if (now - last_flush st) * 1000 \<ge> buffer_ms \<or> length (buffer st) + 1 > 50
        then buffer st' = [] \<and> last_flush st' = now
          \<and> (\<exists>batch. emitted st' = emitted st @ map snd batch
                \<and> mset batch = add_mset (epoch_of item now, item) (mset (buffer st))
                \<and> sorted (map fst batch))
        else emitted st' = emitted st \<and> last_flush st' = last_flush st
          \<and> mset (buffer st') = add_mset (epoch_of item now, item) (mset (buffer st)))"
proof -
  let ?new = "(epoch_of item now, item)"
  let ?all = "buffer st @ [?new]"
  from assms have d: "distinct (map fst ?all)" by (simp add: consumer_ok_def)
  then have tot: "total_on lt_item fst (set ?all)" by (rule total_on_lt_item)
  have s1: "set (buffer st) \<subseteq> set ?all" and s2: "?new \<in> set ?all" by auto
  from assms(1) have ho: "heap_ordered fst (buffer st)" by (simp add: consumer_ok_def)
  from heappush_props [OF tot s1 s2 ho] obtain buf where
    buf: "heappush lt_item (buffer st) ?new = Inr buf" "mset buf = add_mset ?new (mset (buffer st))"
      "heap_ordered fst buf" by blast
  from buf(2) have mb: "mset buf = mset ?all" by simp
  then have sb: "set buf = set ?all" by (rule mset_eq_setD)
  from mb have "length buf = length ?all" by (rule mset_eq_length)
  then have lb: "length buf = length (buffer st) + 1" by simp
  from mb have "mset (map fst buf) = mset (map fst ?all)" by (simp only: mset_map)
  then have "distinct (map fst buf) = distinct (map fst ?all)" by (rule mset_eq_imp_distinct_iff)
  with d have db: "distinct (map fst buf)" by simp
  show ?thesis
  proof (cases "(now - last_flush st) * 1000 \<ge> buffer_ms \<or> length (buffer st) + 1 > 50")
    case False
    with buf lb db show ?thesis
      by (simp add: symbol_consumer_step_def consumer_ok_def)
  next
    case True
    from sb have "set buf \<subseteq> set ?all" by simp
    from flush_buffer_sorted [OF tot this buf(3)] obtain batch where
      b: "flush_buffer buf = (None, map snd batch)" "mset batch = mset buf" "sorted (map fst batch)"
      by blast
    let ?st' = "\<lparr>buffer = [], last_flush = now, emitted = emitted st @ map snd batch\<rparr>"
    from True buf(1) lb b(1) have "symbol_consumer_step buffer_ms st (item, now) = (None, ?st')"
      by (simp add: symbol_consumer_step_def)
    moreover have "consumer_ok ?st'" by (simp add: consumer_ok_def heap_ordered_def)
    ultimately show ?thesis using True b buf(2) by auto
  qed
qed

lemmas consumer_run_simps = symbol_consumer_step_def consumer_start_def epoch_of_def
  heappush_def heappop_def siftdown_def siftup_def siftdown_loop.simps siftup_loop.simps
  flush_buffer.simps lt_item_def tick_at_def Let_def

lemma sorted_by_timestamp:
  assumes "sorted (map fst batch)" and "keyed_by_timestamp batch"
  shows "sorted (map tick_timestamp (map snd batch))"
proof -
  have "tick_timestamp (snd x) \<le> tick_timestamp (snd y)"
    if "x \<in> set batch" "y \<in> set batch" "fst x \<le> fst y" for x y
  proof -
    from assms(2) that(1) have kx: "tick_timestamp (snd x) \<noteq> None" "fst x = epoch_of (snd x) 0"
      by (simp_all add: keyed_by_timestamp_def)
    from assms(2) that(2) have ky: "tick_timestamp (snd y) \<noteq> None" "fst y = epoch_of (snd y) 0"
      by (simp_all add: keyed_by_timestamp_def)
    from kx(1) obtain a where a1: "tick_timestamp (snd x) = Some a" by blast
    from ky(1) obtain b where b1: "tick_timestamp (snd y) = Some b" by blast
    from kx(2) a1 have a2: "fst x = real_of_int a / 1000000" by (simp add: epoch_of_def)
    from ky(2) b1 have b2: "fst y = real_of_int b / 1000000" by (simp add: epoch_of_def)
    note a = a1 a2 and b = b1 b2
    with that(3) have "a \<le> b" by simp
    with a b show ?thesis by simp
  qed
  note mono = this
  from assms(1) have "sorted_wrt (\<lambda>x y. fst x \<le> fst y) batch" by (simp add: sorted_map)
  then have "sorted_wrt (\<lambda>x y. tick_timestamp (snd x) \<le> tick_timestamp (snd y)) batch"
    by (rule sorted_wrt_mono_rel [rotated]) (rule mono)
  then show ?thesis by (simp add: sorted_map)
qed

lemma flush_step_sorted:
  assumes "consumer_ok st" and "keyed_by_timestamp (buffer st)"
    and "tick_timestamp item \<noteq> None"
    and "epoch_of item now \<notin> fst ` set (buffer st)"
  shows "\<exists>st' batch. symbol_consumer_step buffer_ms st (item, now) = (None, st')
    \<and> consumer_ok st' \<and> keyed_by_timestamp (buffer st')
    \<and> emitted st' = emitted st @ batch
    \<and> sorted (map tick_timestamp batch)
    \<and> (if (now - last_flush st) * 1000 \<ge> buffer_ms \<or> length (buffer st) + 1 > 50
        then buffer st' = [] \<and> mset batch = add_mset item (mset (map snd (buffer st)))
        else batch = [])"
proof -
  let ?new = "(epoch_of item now, item)"
  from assms(3) have e0: "epoch_of item now = epoch_of item 0" by (auto simp: epoch_of_def)
  with assms(2,3) have k: "keyed_by_timestamp (buffer st @ [?new])"
    by (simp add: keyed_by_timestamp_def)
  from symbol_consumer_step_ok [OF assms(1,4), of buffer_ms] obtain st' where
    st': "symbol_consumer_step buffer_ms st (item, now) = (None, st')" "consumer_ok st'"
    and c: "if (now - last_flush st) * 1000 \<ge> buffer_ms \<or> length (buffer st) + 1 > 50
        then buffer st' = [] \<and> last_flush st' = now
          \<and> (\<exists>batch. emitted st' = emitted st @ map snd batch
                \<and> mset batch = add_mset ?new (mset (buffer st))
                \<and> sorted (map fst batch))
        else emitted st' = emitted st \<and> last_flush st' = last_flush st
          \<and> mset (buffer st') = add_mset ?new (mset (buffer st))"
    by blast
  show ?thesis
  proof (cases "(now - last_flush st) * 1000 \<ge> buffer_ms \<or> length (buffer st) + 1 > 50")
    case True
    with c obtain batch where b: "buffer st' = []" "emitted st' = emitted st @ map snd batch"
      "mset batch = add_mset ?new (mset (buffer st))" "sorted (map fst batch)" by auto
    from b(3) have "mset batch = mset (buffer st @ [?new])" by simp
    then have "set batch = set (buffer st @ [?new])" by (rule mset_eq_setD)
    with k have "keyed_by_timestamp batch" by (simp add: keyed_by_timestamp_def)
    from sorted_by_timestamp [OF b(4) this]
    have "sorted (map tick_timestamp (map snd batch))" .
    moreover from b(3) have "mset (map snd batch) = add_mset item (mset (map snd (buffer st)))"
      by (metis mset_map image_mset_add_mset snd_conv)
    moreover have "keyed_by_timestamp (buffer st')" using b(1) by (simp add: keyed_by_timestamp_def)
    ultimately show ?thesis using True st' b(1,2) by auto
  next
    case False
    with c have e: "emitted st' = emitted st"
      and m: "mset (buffer st') = add_mset ?new (mset (buffer st))" by auto
    from m have "mset (buffer st') = mset (buffer st @ [?new])" by simp
    then have "set (buffer st') = set (buffer st @ [?new])" by (rule mset_eq_setD)
    with k have "keyed_by_timestamp (buffer st')" by (simp add: keyed_by_timestamp_def)
    with False st' e show ?thesis by auto
  qed
qed

text \<open>
  C3. The consumer starts with an empty buffer. In a state whose buffered ticks have
  parseable, pairwise distinct timestamps, one iteration for a tick with a parseable
  timestamp different from these raises nothing and keeps that property; when the
  flush is due (window elapsed since the last flush, or more than 50 ticks buffered)
  it re-emits exactly the buffered ticks and the new one, in non-decreasing timestamp
  order, and empties the buffer; otherwise it emits nothing. So the ticks drained by
  one flush are re-emitted in timestamp order.
\<close>

theorem flush_emits_in_timestamp_order:
  "consumer_ok (consumer_start t0) \<and> keyed_by_timestamp (buffer (consumer_start t0))
   \<and> (consumer_ok st \<and> keyed_by_timestamp (buffer st) \<and> tick_timestamp item \<noteq> None
        \<and> epoch_of item now \<notin> fst ` set (buffer st)
      \<longrightarrow> (\<exists>st' batch. symbol_consumer_step buffer_ms st (item, now) = (None, st')
            \<and> consumer_ok st' \<and> keyed_by_timestamp (buffer st')
            \<and> emitted st' = emitted st @ batch
            \<and> sorted (map tick_timestamp batch)
            \<and> (if (now - last_flush st) * 1000 \<ge> buffer_ms \<or> length (buffer st) + 1 > 50
                then buffer st' = [] \<and> mset batch = add_mset item (mset (map snd (buffer st)))
                else batch = [])))"
proof (intro conjI impI)
  show "consumer_ok (consumer_start t0)"
    by (simp add: consumer_ok_def consumer_start_def heap_ordered_def)
  show "keyed_by_timestamp (buffer (consumer_start t0))"
    by (simp add: keyed_by_timestamp_def consumer_start_def)
next
  assume h: "consumer_ok st \<and> keyed_by_timestamp (buffer st) \<and> tick_timestamp item \<noteq> None
        \<and> epoch_of item now \<notin> fst ` set (buffer st)"
  then have h1: "consumer_ok st" and h2: "keyed_by_timestamp (buffer st)"
    and h3: "tick_timestamp item \<noteq> None" and h4: "epoch_of item now \<notin> fst ` set (buffer st)"
    by simp_all
  from flush_step_sorted [OF h1 h2 h3 h4, of buffer_ms]
  show "\<exists>st' batch. symbol_consumer_step buffer_ms st (item, now) = (None, st')
            \<and> consumer_ok st' \<and> keyed_by_timestamp (buffer st')
            \<and> emitted st' = emitted st @ batch
            \<and> sorted (map tick_timestamp batch)
            \<and> (if (now - last_flush st) * 1000 \<ge> buffer_ms \<or> length (buffer st) + 1 > 50
                then buffer st' = [] \<and> mset batch = add_mset item (mset (map snd (buffer st)))
                else batch = [])" .
qed

theorem flush_emits_in_timestamp_order_witness:
  "consumer_ok \<lparr>buffer = [(1.02, tick_at 1020000 100)], last_flush = 0, emitted = []\<rparr>
   \<and> keyed_by_timestamp [(1.02, tick_at 1020000 100)]
   \<and> tick_timestamp (tick_at 1010000 101) \<noteq> None
   \<and> epoch_of (tick_at 1010000 101) 0.25 \<notin> fst ` set [(1.02, tick_at 1020000 100)]
   \<and> emitted (snd (symbol_consumer_step 200
        \<lparr>buffer = [(1.02, tick_at 1020000 100)], last_flush = 0, emitted = []\<rparr>
        (tick_at 1010000 101, 0.25)))
      = [tick_at 1010000 101, tick_at 1020000 100]
   \<and> sorted (map tick_timestamp (emitted (snd (symbol_consumer_step 200
        \<lparr>buffer = [(1.02, tick_at 1020000 100)], last_flush = 0, emitted = []\<rparr>
        (tick_at 1010000 101, 0.25)))))"
proof -
  let ?st = "\<lparr>buffer = [(1.02, tick_at 1020000 100)], last_flush = 0, emitted = []\<rparr>"
  have h1: "consumer_ok ?st" by (simp add: consumer_ok_def heap_ordered_def)
  have h2: "keyed_by_timestamp (buffer ?st)"
    by (simp add: keyed_by_timestamp_def tick_at_def epoch_of_def)
  have h3: "tick_timestamp (tick_at 1010000 101) \<noteq> None" by (simp add: tick_at_def)
  have h4: "epoch_of (tick_at 1010000 101) 0.25 \<notin> fst ` set (buffer ?st)"
    by (simp add: tick_at_def epoch_of_def)
  from flush_emits_in_timestamp_order [where st = ?st and item = "tick_at 1010000 101"
      and now = "0.25" and buffer_ms = 200] h1 h2 h3 h4
  obtain st' batch where
    r: "symbol_consumer_step 200 ?st (tick_at 1010000 101, 0.25) = (None, st')"
      "emitted st' = emitted ?st @ batch" "sorted (map tick_timestamp batch)" by blast
  have v: "emitted (snd (symbol_consumer_step 200 ?st (tick_at 1010000 101, 0.25)))
      = [tick_at 1010000 101, tick_at 1020000 100]"
    by (simp add: consumer_run_simps)
  from r have "sorted (map tick_timestamp (emitted (snd (symbol_consumer_step 200 ?st
      (tick_at 1010000 101, 0.25)))))" by simp
  with h1 h2 h3 h4 v show ?thesis by simp
qed

text \<open>
  The claim as stated fails. The consumer starts at clock 0 with a window of 200 ms.
  Three ticks arrive at 0.25 s, 0.26 s and 0.45 s, no two of them more than the window
  apart, with timestamps 1.02 s, 1.01 s and 1.03 s. The first arrival finds the window
  elapsed and is flushed alone; the second, older, tick waits for the next flush and is
  re-emitted after it.
\<close>

theorem router_emits_out_of_order_across_flushes:
  "(0.45 - 0.25) * 1000 \<le> (200::real)
   \<and> map tick_timestamp (emitted (snd (symbol_consumer 200 (consumer_start 0)
        [(tick_at 1020000 100, 0.25), (tick_at 1010000 100, 0.26), (tick_at 1030000 100, 0.45)])))
      = [Some 1020000, Some 1010000, Some 1030000]
   \<and> \<not> sorted (map tick_timestamp (emitted (snd (symbol_consumer 200 (consumer_start 0)
        [(tick_at 1020000 100, 0.25), (tick_at 1010000 100, 0.26), (tick_at 1030000 100, 0.45)]))))"
  by (simp add: consumer_run_simps)

text \<open>
  C9. Two ticks of one symbol with the same timestamp and different prices: pushing
  the second onto the heap that holds the first raises \<open>TypeError\<close>, which ends the
  consumer task. While the timestamp of each arriving tick differs from those of the
  ticks in the buffer (whose timestamps are pairwise distinct), an iteration (push,
  and flush when due) raises nothing and keeps the buffered timestamps distinct.
\<close>

theorem equal_timestamps_raise_TypeError:
  "heappush lt_item [(1, tick_at 1000000 100)] (1, tick_at 1000000 101) = Inl TypeError
   \<and> fst (symbol_consumer 200 (consumer_start 0)
        [(tick_at 1000000 100, 0.01), (tick_at 1000000 101, 0.02)]) = Some TypeError
   \<and> consumer_ok (consumer_start t0)
   \<and> (consumer_ok st \<and> epoch_of item now \<notin> fst ` set (buffer st)
        \<longrightarrow> (\<exists>st'. symbol_consumer_step buffer_ms st (item, now) = (None, st')
               \<and> consumer_ok st'))"
proof (intro conjI impI)
  show "heappush lt_item [(1, tick_at 1000000 100)] (1, tick_at 1000000 101) = Inl TypeError"
    by (simp add: consumer_run_simps)
  show "fst (symbol_consumer 200 (consumer_start 0)
        [(tick_at 1000000 100, 0.01), (tick_at 1000000 101, 0.02)]) = Some TypeError"
    by (simp add: consumer_run_simps)
  show "consumer_ok (consumer_start t0)"
    by (simp add: consumer_ok_def consumer_start_def heap_ordered_def)
next
  assume "consumer_ok st \<and> epoch_of item now \<notin> fst ` set (buffer st)"
  then have a: "consumer_ok st" and b: "epoch_of item now \<notin> fst ` set (buffer st)" by simp_all
  from symbol_consumer_step_ok [OF a b, of buffer_ms]
  show "\<exists>st'. symbol_consumer_step buffer_ms st (item, now) = (None, st') \<and> consumer_ok st'"
    by blast
qed

theorem equal_timestamps_raise_TypeError_witness:
  "consumer_ok (consumer_start 0)
   \<and> epoch_of (tick_at 1000000 100) 0.01 \<notin> fst ` set (buffer (consumer_start 0))
   \<and> symbol_consumer_step 200 (consumer_start 0) (tick_at 1000000 100, 0.01)
      = (None, \<lparr>buffer = [(1, tick_at 1000000 100)], last_flush = 0, emitted = []\<rparr>)
   \<and> fst (symbol_consumer_step 200
        \<lparr>buffer = [(1, tick_at 1000000 100)], last_flush = 0, emitted = []\<rparr>
        (tick_at 1000000 101, 0.02)) = Some TypeError"
proof -
  from equal_timestamps_raise_TypeError [where ?t0.0 = 0 and st = "consumer_start 0"
      and item = "tick_at 1000000 100" and now = "0.01" and buffer_ms = 200]
  have a: "consumer_ok (consumer_start 0)" by simp
  have b: "epoch_of (tick_at 1000000 100) 0.01 \<notin> fst ` set (buffer (consumer_start 0))"
    by (simp add: consumer_start_def)
  from equal_timestamps_raise_TypeError [where ?t0.0 = 0 and st = "consumer_start 0"
      and item = "tick_at 1000000 100" and now = "0.01" and buffer_ms = 200] a b
  have "\<exists>st'. symbol_consumer_step 200 (consumer_start 0) (tick_at 1000000 100, 0.01) = (None, st')"
    by blast
  moreover have "symbol_consumer_step 200 (consumer_start 0) (tick_at 1000000 100, 0.01)
      = (None, \<lparr>buffer = [(1, tick_at 1000000 100)], last_flush = 0, emitted = []\<rparr>)"
    by (simp add: consumer_run_simps)
  moreover have "fst (symbol_consumer_step 200
        \<lparr>buffer = [(1, tick_at 1000000 100)], last_flush = 0, emitted = []\<rparr>
        (tick_at 1000000 101, 0.02)) = Some TypeError"
    by (simp add: consumer_run_simps)
  ultimately show ?thesis using a b by simp
qed

section \<open>Wiring: who receives the ordered ticks\<close>

text \<open>
  C2. With the router and the aggregator both constructed on one bus, the aggregator's
  \<open>on_tick\<close> is a subscriber of the raw topic \<open>RAW_MARKET\<close>, and the topic on which
  the router re-emits the ordered ticks has no subscriber at all.
\<close>

theorem aggregator_subscribes_to_raw_ticks:
  "callbacks_of (CandlestickAggregator_init (StreamRouter_init Map.empty)) ''RAW_MARKET''
     = [StreamRouter_on_raw, CandlestickAggregator_on_tick]
   \<and> callbacks_of (CandlestickAggregator_init (StreamRouter_init Map.empty)) ordered_topic = []"
  by (simp add: CandlestickAggregator_init_def StreamRouter_init_def subscribe_def
      callbacks_of_def ordered_topic_def)

section \<open>Candlestick aggregator: bucket starts and candle shape\<close>

text \<open>
  For a timeframe whose length divides one hour the bucket start is a multiple of the
  timeframe, and every candle the aggregator holds or closes has its high and low
  around its open and close.
\<close>

lemmas aggregator_simps = on_tick_def update_tick_def update_buffer_def get_bucket_start_def
  replace_second_microsecond_0_def minute_of_def second_of_def candle_msg_def tick_at_def
  upper_def upper_char_def Let_def

lemma get_bucket_start_aligned:
  assumes "0 < secs" and "secs dvd 3600"
  shows "\<exists>b. get_bucket_start ts secs = Inr b \<and> (secs * 1000000) dvd b"
proof -
  define M where "M = ts div 60000000"
  define x where "x = 60 * (M mod 60)"
  have ts1: "replace_second_microsecond_0 ts = 60000000 * M"
    by (simp add: replace_second_microsecond_0_def M_def minus_mod_eq_mult_div)
  have mi: "minute_of (60000000 * M) = M mod 60" by (simp add: minute_of_def)
  have "(60000000 * M) div 1000000 = 60 * M" by simp
  then have se: "second_of (60000000 * M) = 0" by (simp add: second_of_def)
  have xm: "M mod 60 * 60 + 0 = x" by (simp add: x_def)
  have "get_bucket_start ts secs
      = Inr (replace_second_microsecond_0 ts
          - ((minute_of (replace_second_microsecond_0 ts) * 60
              + second_of (replace_second_microsecond_0 ts)) mod secs) * 1000000)"
    using assms(1) by (simp add: get_bucket_start_def Let_def)
  then have b: "get_bucket_start ts secs = Inr (60000000 * M - (x mod secs) * 1000000)"
    unfolding ts1 mi se xm .
  have "M = 60 * (M div 60) + M mod 60" by simp
  then have "60 * M = 60 * (60 * (M div 60) + M mod 60)" by simp
  then have "60 * M = 3600 * (M div 60) + x"
    unfolding x_def by (simp only: distrib_left mult.assoc [symmetric])
  then have "60 * M - x mod secs = 3600 * (M div 60) + secs * (x div secs)"
    by (simp add: minus_mod_eq_mult_div algebra_simps)
  moreover have "secs dvd 3600 * (M div 60) + secs * (x div secs)"
    using assms(2) by (simp add: dvd_add dvd_mult2)
  ultimately have "secs dvd 60 * M - x mod secs" by simp
  then have "secs * 1000000 dvd (60 * M - x mod secs) * 1000000" by (simp only: mult_dvd_mono dvd_refl)
  moreover have "(60 * M - x mod secs) * 1000000 = 60000000 * M - (x mod secs) * 1000000"
    by (simp add: algebra_simps)
  ultimately show ?thesis using b by simp
qed

lemma update_buffer_ok:
  assumes "\<forall>c\<in>set buf. candle_ok c" and "update_buffer buf tf b p v = (buf', cl)"
  shows "(\<forall>c\<in>set buf'. candle_ok c) \<and> (\<forall>c\<in>set cl. candle_ok c)"
proof (cases "buf = [] \<or> c_start (last buf) \<noteq> b")
  case True
  have bl: "\<forall>c\<in>set (butlast buf). candle_ok c" using assms(1) by (meson in_set_butlastD)
  have l: "buf \<noteq> [] \<Longrightarrow> candle_ok ((last buf)\<lparr>c_tf := tf\<rparr>)"
    using assms(1) by (simp add: candle_ok_def)
  from True assms(2) have "buf' = (if buf \<noteq> [] then butlast buf @ [(last buf)\<lparr>c_tf := tf\<rparr>] else buf)
      @ [\<lparr>c_start = b, c_tf = tf, c_open = p, c_high = p, c_low = p, c_close = p, c_volume = v\<rparr>]"
    and "cl = (if buf \<noteq> [] then [(last buf)\<lparr>c_tf := tf\<rparr>] else [])"
    by (auto simp: update_buffer_def)
  with bl l show ?thesis by (auto simp: candle_ok_def)
next
  case False
  then have ne: "buf \<noteq> []" by simp
  with assms(1) have l: "candle_ok (last buf)" by simp
  have bl: "\<forall>c\<in>set (butlast buf). candle_ok c" using assms(1) by (meson in_set_butlastD)
  from False assms(2) have "buf' = butlast buf @ [(last buf)\<lparr>c_high := max (c_high (last buf)) p,
      c_low := min (c_low (last buf)) p, c_close := p, c_volume := c_volume (last buf) + v\<rparr>]"
    and "cl = []" by (simp_all add: update_buffer_def)
  with l bl show ?thesis by (auto simp: candle_ok_def)
qed

lemma update_tick_loop_ok:
  assumes "\<forall>s t. \<forall>c\<in>set (bufs s t). candle_ok c" and "\<forall>c\<in>set fin. candle_ok c"
    and "update_tick_loop tfs bufs fin smb p v ts = (r, bufs', fin')"
  shows "(\<forall>s t. \<forall>c\<in>set (bufs' s t). candle_ok c) \<and> (\<forall>c\<in>set fin'. candle_ok c)"
  using assms
proof (induction tfs arbitrary: bufs fin)
  case Nil
  then show ?case by simp
next
  case (Cons a tfs)
  obtain tf secs where a: "a = (tf, secs)" by (cases a)
  show ?case
  proof (cases "get_bucket_start ts secs")
    case (Inl e)
    with Cons.prems a show ?thesis by simp
  next
    case (Inr b)
    obtain buf' cl where u: "update_buffer (bufs smb tf) tf b p v = (buf', cl)"
      by (cases "update_buffer (bufs smb tf) tf b p v")
    from Cons.prems(1) have "\<forall>c\<in>set (bufs smb tf). candle_ok c" by blast
    from update_buffer_ok [OF this u] have ok: "\<forall>c\<in>set buf'. candle_ok c" "\<forall>c\<in>set cl. candle_ok c"
      by simp_all
    have b1: "\<forall>s t. \<forall>c\<in>set ((bufs(smb := (bufs smb)(tf := buf'))) s t). candle_ok c"
      using Cons.prems(1) ok(1) by simp
    have f1: "\<forall>c\<in>set (fin @ cl). candle_ok c" using Cons.prems(2) ok(2) by auto
    from Cons.prems(3) a Inr u
    have "update_tick_loop tfs (bufs(smb := (bufs smb)(tf := buf'))) (fin @ cl) smb p v ts
        = (r, bufs', fin')" by simp
    from Cons.IH [OF b1 f1 this] show ?thesis .
  qed
qed

lemma on_tick_candles_ok:
  assumes "\<forall>s t. \<forall>c\<in>set (buffers agg s t). candle_ok c"
    and "on_tick agg tk = (r, agg', msgs)"
  shows "(\<forall>s t. \<forall>c\<in>set (buffers agg' s t). candle_ok c)
    \<and> (\<forall>m\<in>set msgs. \<exists>op hi lo cl. p_open (msg_payload m) = Some op \<and> p_high (msg_payload m) = Some hi
          \<and> p_low (msg_payload m) = Some lo \<and> p_close (msg_payload m) = Some cl
          \<and> max op cl \<le> hi \<and> lo \<le> min op cl)"
proof (cases "tick_timestamp tk")
  case None
  with assms show ?thesis by (simp add: on_tick_def)
next
  case (Some ts)
  show ?thesis
  proof (cases "tick_price tk")
    case None
    with Some assms show ?thesis by (simp add: on_tick_def)
  next
    case (Some price)
    let ?sym = "upper (tick_symbol tk)"
    let ?vol = "case tick_volume tk of None \<Rightarrow> 0 | Some v \<Rightarrow> v"
    obtain r1 bufs fin where l: "update_tick_loop (timeframes agg) (buffers agg) [] ?sym price ?vol ts
        = (r1, bufs, fin)"
      by (cases "update_tick_loop (timeframes agg) (buffers agg) [] ?sym price ?vol ts")
    from update_tick_loop_ok [OF assms(1) _ l]
    have ok: "\<forall>s t. \<forall>c\<in>set (bufs s t). candle_ok c" "\<forall>c\<in>set fin. candle_ok c" by simp_all
    from l have ut: "update_tick agg ?sym price ?vol ts = (r1, agg\<lparr>buffers := bufs\<rparr>, fin)"
      by (simp add: update_tick_def)
    show ?thesis
    proof (cases r1)
      case None
      with ut Some \<open>tick_timestamp tk = Some ts\<close> assms(2)
      have "agg' = agg\<lparr>buffers := bufs\<rparr>" "msgs = map (candle_msg tk ?sym) fin"
        by (simp_all add: on_tick_def)
      with ok show ?thesis by (auto simp: candle_msg_def candle_ok_def)
    next
      case (Some e)
      with ut \<open>tick_price tk = Some price\<close> \<open>tick_timestamp tk = Some ts\<close> assms(2)
      have "agg' = agg\<lparr>buffers := bufs\<rparr>" "msgs = []"
        by (simp_all add: on_tick_def)
      with ok show ?thesis by simp
    qed
  qed
qed

text \<open>
  C4. The aggregator configured with the timeframe \<open>2h\<close> (7200 s) receives a tick at
  01:30:00 and one at 02:10:00 (UTC, on 1970-01-01). The second tick closes a \<open>2h\<close>
  candle whose start is 01:00:00, that is 3600 s after the epoch, which is not a multiple
  of 7200 s: the bucket is computed from the minute of the hour only.
\<close>

theorem two_hour_candles_start_off_the_grid:
  "CandlestickAggregator_new [''2h''] = Inr agg_2h
   \<and> map msg_timestamp (snd (snd (on_tick (fst (snd (on_tick agg_2h (tick_at 5400000000 100))))
        (tick_at 7800000000 101)))) = [3600000000]
   \<and> map msg_timeframe (snd (snd (on_tick (fst (snd (on_tick agg_2h (tick_at 5400000000 100))))
        (tick_at 7800000000 101)))) = [''2h'']
   \<and> \<not> (7200 * 1000000 :: int) dvd 3600000000"
  by (simp add: aggregator_simps agg_2h_def CandlestickAggregator_new_def int_of_str_def
      digit_of_def)

section \<open>Blender, ledger and simulator\<close>

lemma upper_char_idem: "upper_char (upper_char c) = upper_char c"
  by (cases c) (auto simp: upper_char_def)

lemma upper_idem: "upper (upper s) = upper s"
  by (simp add: upper_def upper_char_idem)

lemma or_empty_id: "or_empty m = m"
  by (simp add: or_empty_def)

lemma dd_get_touch: "dd_get d (dd_touch d m k) k' = dd_get d m k'"
  by (simp add: dd_get_def dd_touch_def split: option.splits)

lemma on_order_with_bus:
  assumes "has_bus ex"
  shows "\<exists>ex'. on_order ex now od =
      (ex', [\<lparr>fill_symbol = ord_symbol od, fill_quantity = ord_quantity od,
              fill_direction = ord_direction od,
              fill_price = (if ord_direction od = ''BUY''
                            then ord_price od + (slippage_bps ex / 10000) * ord_price od
                            else ord_price od - (slippage_bps ex / 10000) * ord_price od),
              fill_timestamp = now,
              fill_commission = (commission_bps ex / 10000)
                * ((if ord_direction od = ''BUY''
                    then ord_price od + (slippage_bps ex / 10000) * ord_price od
                    else ord_price od - (slippage_bps ex / 10000) * ord_price od)
                   * ord_quantity od),
              fill_order_id = ord_id od, fill_meta = ord_meta od\<rparr>])
    \<and> has_bus ex'
    \<and> order_meta_table ex' (ord_id od) = None
    \<and> (\<forall>i. i \<noteq> ord_id od \<longrightarrow> order_meta_table ex' i = order_meta_table ex i)"
  using assms
  by (simp add: on_order_def simulate_fill_def execute_real_def or_empty_id Let_def)

text \<open>
  C7. An order handed to a simulator that has a bus, whatever its mode, makes
  \<open>on_order\<close> publish exactly one fill: it carries the order's id, symbol, quantity and
  direction; its price is the order's price plus the slippage
  \<open>(slippage_bps / 10000) * price\<close> for a \<open>BUY\<close> and minus it otherwise; its commission
  is \<open>(commission_bps / 10000) * fill_price * quantity\<close>; its meta is the order's meta,
  taken out of the side-table, which afterwards has no entry for the order's id and is
  unchanged for every other id.
\<close>

theorem on_order_publishes_one_fill:
  assumes "has_bus ex"
  shows "\<exists>ex' fl. on_order ex now od = (ex', [fl])
    \<and> fill_order_id fl = ord_id od \<and> fill_symbol fl = ord_symbol od
    \<and> fill_quantity fl = ord_quantity od \<and> fill_direction fl = ord_direction od
    \<and> fill_price fl = (if ord_direction od = ''BUY''
                        then ord_price od + (slippage_bps ex / 10000) * ord_price od
                        else ord_price od - (slippage_bps ex / 10000) * ord_price od)
    \<and> fill_commission fl = (commission_bps ex / 10000) * (fill_price fl * ord_quantity od)
    \<and> fill_meta fl = ord_meta od
    \<and> order_meta_table ex' (ord_id od) = None
    \<and> (\<forall>i. i \<noteq> ord_id od \<longrightarrow> order_meta_table ex' i = order_meta_table ex i)"
proof -
  from on_order_with_bus [OF assms, of now od] obtain ex' where
    r: "on_order ex now od =
      (ex', [\<lparr>fill_symbol = ord_symbol od, fill_quantity = ord_quantity od,
              fill_direction = ord_direction od,
              fill_price = (if ord_direction od = ''BUY''
                            then ord_price od + (slippage_bps ex / 10000) * ord_price od
                            else ord_price od - (slippage_bps ex / 10000) * ord_price od),
              fill_timestamp = now,
              fill_commission = (commission_bps ex / 10000)
                * ((if ord_direction od = ''BUY''
                    then ord_price od + (slippage_bps ex / 10000) * ord_price od
                    else ord_price od - (slippage_bps ex / 10000) * ord_price od)
                   * ord_quantity od),
              fill_order_id = ord_id od, fill_meta = ord_meta od\<rparr>])"
    and t: "order_meta_table ex' (ord_id od) = None"
      "\<forall>i. i \<noteq> ord_id od \<longrightarrow> order_meta_table ex' i = order_meta_table ex i"
    by blast
  show ?thesis
    by (rule exI [of _ ex'], rule exI, intro conjI, rule r) (simp_all add: t)
qed

theorem on_order_publishes_one_fill_witness:
  "has_bus (OrderExecutionHandler_new ''PAPER'' True 3 1)
   \<and> map fill_price (snd (on_order (OrderExecutionHandler_new ''PAPER'' True 3 1) 7
        \<lparr>ord_symbol = ''BTCUSDT'', ord_quantity = 0.008, ord_direction = ''BUY'',
          ord_price = 100, ord_id = ORD 5, ord_meta = meta_momentum 0.8\<rparr>)) = [100.03]
   \<and> map fill_commission (snd (on_order (OrderExecutionHandler_new ''PAPER'' True 3 1) 7
        \<lparr>ord_symbol = ''BTCUSDT'', ord_quantity = 0.008, ord_direction = ''BUY'',
          ord_price = 100, ord_id = ORD 5, ord_meta = meta_momentum 0.8\<rparr>)) = [0.000080024]
   \<and> map fill_meta (snd (on_order (OrderExecutionHandler_new ''PAPER'' True 3 1) 7
        \<lparr>ord_symbol = ''BTCUSDT'', ord_quantity = 0.008, ord_direction = ''BUY'',
          ord_price = 100, ord_id = ORD 5, ord_meta = meta_momentum 0.8\<rparr>)) = [meta_momentum 0.8]
   \<and> order_meta_table (fst (on_order (OrderExecutionHandler_new ''PAPER'' True 3 1) 7
        \<lparr>ord_symbol = ''BTCUSDT'', ord_quantity = 0.008, ord_direction = ''BUY'',
          ord_price = 100, ord_id = ORD 5, ord_meta = meta_momentum 0.8\<rparr>)) (ORD 5) = None"
proof -
  let ?ex = "OrderExecutionHandler_new ''PAPER'' True 3 1"
  let ?od = "\<lparr>ord_symbol = ''BTCUSDT'', ord_quantity = 0.008, ord_direction = ''BUY'',
          ord_price = 100, ord_id = ORD 5, ord_meta = meta_momentum 0.8\<rparr>"
  have h: "has_bus ?ex" by (simp add: OrderExecutionHandler_new_def)
  have sl: "slippage_bps ?ex = 3" "commission_bps ?ex = 1"
    by (simp_all add: OrderExecutionHandler_new_def)
  from on_order_publishes_one_fill [OF h, of 7 ?od] obtain ex' fl where
    r: "on_order ?ex 7 ?od = (ex', [fl])"
      "fill_price fl = (if ord_direction ?od = ''BUY''
                        then ord_price ?od + (slippage_bps ?ex / 10000) * ord_price ?od
                        else ord_price ?od - (slippage_bps ?ex / 10000) * ord_price ?od)"
      "fill_commission fl = (commission_bps ?ex / 10000) * (fill_price fl * ord_quantity ?od)"
      "fill_meta fl = ord_meta ?od" "order_meta_table ex' (ord_id ?od) = None"
    by blast
  from r(2) sl have p: "fill_price fl = 100.03" by simp
  from r(3) sl p have c: "fill_commission fl = 0.000080024" by simp
  from h r(1,4,5) p c show ?thesis by simp
qed

text \<open>
  C10. A \<open>TARGET\<close> signal (with symbol and price) whose \<open>|delta|\<close> is below the noise
  threshold places no order and still changes the ledger: the mark price of its symbol
  becomes the signal's price. Every other mark price, the cash, every position
  quantity and the per-alpha virtual positions are as before.
\<close>

theorem discarded_signal_frame:
  assumes "sig_direction sg = Some ''TARGET''"
    and "sig_symbol sg = Some raw" and "sig_price sg = Some price"
    and "\<bar>max (- 1) (min 1 (or_else (sig_score sg) 0))
            * dd_get (1 / 100) (max_units pf) (upper raw)
          - dd_get 0 (positions pf) (upper raw)\<bar> < max (4 / 10000) (1 / 1000000)"
  shows "\<exists>pf'. on_signal pf now sg = (None, pf', [])
    \<and> last_prices pf' (upper raw) = Some price
    \<and> (\<forall>s. s \<noteq> upper raw \<longrightarrow> last_prices pf' s = last_prices pf s)
    \<and> cash pf' = cash pf
    \<and> (\<forall>s. dd_get 0 (positions pf') s = dd_get 0 (positions pf) s)
    \<and> alpha_virtual_pos pf' = alpha_virtual_pos pf"
  using assms
  by (simp add: on_signal_def Let_def DEFAULT_MAX_UNITS_def DELTA_THRESHOLD_def
      MIN_TRADE_UNITS_def dd_get_touch)

theorem discarded_signal_frame_witness:
  "sig_direction (signal_x ''btcusdt'' 0.01 (meta_momentum 0.01)) = Some ''TARGET''
   \<and> sig_symbol (signal_x ''btcusdt'' 0.01 (meta_momentum 0.01)) = Some ''btcusdt''
   \<and> sig_price (signal_x ''btcusdt'' 0.01 (meta_momentum 0.01)) = Some 100
   \<and> snd (snd (on_signal (PortfolioHandler_new 100000 None) 1
        (signal_x ''btcusdt'' 0.01 (meta_momentum 0.01)))) = []
   \<and> last_prices (fst (snd (on_signal (PortfolioHandler_new 100000 None) 1
        (signal_x ''btcusdt'' 0.01 (meta_momentum 0.01))))) ''BTCUSDT'' = Some 100
   \<and> cash (fst (snd (on_signal (PortfolioHandler_new 100000 None) 1
        (signal_x ''btcusdt'' 0.01 (meta_momentum 0.01))))) = 100000"
proof -
  let ?sg = "signal_x ''btcusdt'' 0.01 (meta_momentum 0.01)"
  let ?pf = "PortfolioHandler_new 100000 None"
  have h: "sig_direction ?sg = Some ''TARGET''" "sig_symbol ?sg = Some ''btcusdt''"
    "sig_price ?sg = Some 100" by (simp_all add: signal_x_def)
  have u: "upper ''btcusdt'' = ''BTCUSDT''" by (simp add: upper_def upper_char_def)
  have d: "\<bar>max (- 1) (min 1 (or_else (sig_score ?sg) 0))
            * dd_get (1 / 100) (max_units ?pf) (upper ''btcusdt'')
          - dd_get 0 (positions ?pf) (upper ''btcusdt'')\<bar> < max (4 / 10000) (1 / 1000000)"
    by (simp add: signal_x_def PortfolioHandler_new_def dd_get_def or_else_def)
  from discarded_signal_frame [OF h d, of 1] obtain pf' where
    "on_signal ?pf 1 ?sg = (None, pf', [])" "last_prices pf' (upper ''btcusdt'') = Some 100"
    "cash pf' = cash ?pf" by blast
  with h u show ?thesis by (simp add: PortfolioHandler_new_def)
qed

lemmas signal_simps = on_signal_def Let_def DEFAULT_MAX_UNITS_def DELTA_THRESHOLD_def
  MIN_TRADE_UNITS_def dd_get_def dd_touch_def or_else_def order_meta_of_def or_empty_def
  empty_meta_def PortfolioHandler_new_def upper_def upper_char_def signal_x_def meta_x_def
  meta_momentum_def

lemma order_meta_of_kept:
  "m_scores m = Some sc \<Longrightarrow> sc \<noteq> Map.empty \<Longrightarrow> order_meta_of (Some m) score = m"
  by (simp add: order_meta_of_def or_empty_id)

lemma order_meta_of_generic:
  "m_scores m = None \<or> m_scores m = Some Map.empty \<Longrightarrow>
   order_meta_of (Some m) score = m\<lparr>m_scores := Some [''GENERIC'' \<mapsto> score]\<rparr>"
  by (auto simp: order_meta_of_def or_empty_id)

lemma order_meta_of_none:
  "order_meta_of None score = empty_meta\<lparr>m_scores := Some [''GENERIC'' \<mapsto> score]\<rparr>"
  by (simp add: order_meta_of_def empty_meta_def)

lemma on_signal_target:
  assumes "sig_direction sg = Some ''TARGET''"
    and "sig_symbol sg = Some raw" and "sig_price sg = Some price"
  shows "on_signal pf now sg =
    (None,
     pf\<lparr>last_prices := (last_prices pf)(upper raw \<mapsto> price),
        max_units := dd_touch (1 / 100) (max_units pf) (upper raw),
        positions := dd_touch 0 (positions pf) (upper raw)\<rparr>,
     if \<bar>max (- 1) (min 1 (or_else (sig_score sg) 0)) * dd_get (1 / 100) (max_units pf) (upper raw)
          - dd_get 0 (positions pf) (upper raw)\<bar> < 4 / 10000
     then []
     else [\<lparr>ord_symbol = upper raw,
            ord_quantity = \<bar>max (- 1) (min 1 (or_else (sig_score sg) 0))
                  * dd_get (1 / 100) (max_units pf) (upper raw)
                - dd_get 0 (positions pf) (upper raw)\<bar>,
            ord_direction = (if max (- 1) (min 1 (or_else (sig_score sg) 0))
                  * dd_get (1 / 100) (max_units pf) (upper raw)
                - dd_get 0 (positions pf) (upper raw) > 0 then ''BUY'' else ''SELL''),
            ord_price = price, ord_id = ORD now,
            ord_meta = order_meta_of (sig_meta sg) (or_else (sig_score sg) 0)\<rparr>])"
  using assms
  by (simp add: on_signal_def Let_def DEFAULT_MAX_UNITS_def DELTA_THRESHOLD_def
      MIN_TRADE_UNITS_def)

text \<open>
  C6. For a \<open>TARGET\<close> signal with symbol and price, the ledger takes
  \<open>target = clamp(score, -1, 1) * max_units[symbol]\<close> (0.01 when the symbol has no
  entry) and \<open>delta = target - positions[symbol]\<close>. Below the noise floor
  \<open>max(1e-6, 4e-4)\<close> it places no order; otherwise it publishes exactly one order, for
  the upper-cased symbol at the signal's price, with quantity \<open>|delta|\<close>, direction
  \<open>BUY\<close> when \<open>delta > 0\<close> and \<open>SELL\<close> otherwise, the id \<open>ORD-\<close> followed by the
  clock reading, and as meta the signal's meta when that holds a non-empty \<open>scores\<close>
  dict, else the signal's meta (or the empty dict) with \<open>scores\<close> set to
  \<open>{"GENERIC": score}\<close>. A score of 0.8 with 0.01 units and position 0 gives one
  \<open>BUY\<close> of 0.008.
\<close>

theorem on_signal_sizes_order:
  assumes "sig_direction sg = Some ''TARGET''"
    and "sig_symbol sg = Some raw" and "sig_price sg = Some price"
  shows "let score = (case sig_score sg of None \<Rightarrow> 0 | Some s \<Rightarrow> s);
             target = max (- 1) (min 1 score)
                        * (case max_units pf (upper raw) of None \<Rightarrow> 1 / 100 | Some u \<Rightarrow> u);
             delta = target - (case positions pf (upper raw) of None \<Rightarrow> 0 | Some q \<Rightarrow> q)
         in fst (on_signal pf now sg) = None
          \<and> (\<bar>delta\<bar> < max (1 / 1000000) (4 / 10000) \<longrightarrow> snd (snd (on_signal pf now sg)) = [])
          \<and> (\<not> \<bar>delta\<bar> < max (1 / 1000000) (4 / 10000) \<longrightarrow>
               (\<exists>od. snd (snd (on_signal pf now sg)) = [od]
                  \<and> ord_symbol od = upper raw \<and> ord_price od = price
                  \<and> ord_quantity od = \<bar>delta\<bar>
                  \<and> ord_direction od = (if delta > 0 then ''BUY'' else ''SELL'')
                  \<and> ord_id od = ORD now
                  \<and> (\<forall>m sc. sig_meta sg = Some m \<and> m_scores m = Some sc \<and> sc \<noteq> Map.empty
                        \<longrightarrow> ord_meta od = m)
                  \<and> (\<forall>m. sig_meta sg = Some m
                          \<and> (m_scores m = None \<or> m_scores m = Some Map.empty)
                        \<longrightarrow> ord_meta od = m\<lparr>m_scores := Some [''GENERIC'' \<mapsto> score]\<rparr>)
                  \<and> (sig_meta sg = None
                        \<longrightarrow> ord_meta od = empty_meta\<lparr>m_scores := Some [''GENERIC'' \<mapsto> score]\<rparr>)))
          \<and> (score = 8 / 10 \<and> max_units pf (upper raw) = Some (1 / 100)
                \<and> positions pf (upper raw) = Some 0 \<longrightarrow>
               map ord_direction (snd (snd (on_signal pf now sg))) = [''BUY'']
               \<and> map ord_quantity (snd (snd (on_signal pf now sg))) = [8 / 1000])"
proof -
  define score where "score = (case sig_score sg of None \<Rightarrow> 0 | Some s \<Rightarrow> s)"
  define delta where "delta = max (- 1) (min 1 score)
      * (case max_units pf (upper raw) of None \<Rightarrow> 1 / 100 | Some u \<Rightarrow> u)
    - (case positions pf (upper raw) of None \<Rightarrow> 0 | Some q \<Rightarrow> q)"
  let ?od = "\<lparr>ord_symbol = upper raw, ord_quantity = \<bar>delta\<bar>,
      ord_direction = (if delta > 0 then ''BUY'' else ''SELL''),
      ord_price = price, ord_id = ORD now,
      ord_meta = order_meta_of (sig_meta sg) score\<rparr>"
  have sc: "or_else (sig_score sg) 0 = score" by (simp add: or_else_def score_def)
  have dl: "max (- 1) (min 1 score) * dd_get (1 / 100) (max_units pf) (upper raw)
          - dd_get 0 (positions pf) (upper raw) = delta"
    by (simp add: delta_def dd_get_def)
  have thr: "max (1 / 1000000) (4 / 10000) = (4 / 10000 :: real)" by simp
  from on_signal_target [OF assms, of pf now]
  have r: "fst (on_signal pf now sg) = None"
    and o: "snd (snd (on_signal pf now sg)) = (if \<bar>delta\<bar> < 4 / 10000 then [] else [?od])"
    unfolding sc dl by simp_all
  have a: "\<bar>delta\<bar> < max (1 / 1000000) (4 / 10000) \<longrightarrow> snd (snd (on_signal pf now sg)) = []"
    unfolding thr o by simp
  have b: "\<not> \<bar>delta\<bar> < max (1 / 1000000) (4 / 10000) \<longrightarrow>
       (\<exists>od. snd (snd (on_signal pf now sg)) = [od]
          \<and> ord_symbol od = upper raw \<and> ord_price od = price
          \<and> ord_quantity od = \<bar>delta\<bar>
          \<and> ord_direction od = (if delta > 0 then ''BUY'' else ''SELL'')
          \<and> ord_id od = ORD now
          \<and> (\<forall>m sc. sig_meta sg = Some m \<and> m_scores m = Some sc \<and> sc \<noteq> Map.empty
                \<longrightarrow> ord_meta od = m)
          \<and> (\<forall>m. sig_meta sg = Some m
                  \<and> (m_scores m = None \<or> m_scores m = Some Map.empty)
                \<longrightarrow> ord_meta od = m\<lparr>m_scores := Some [''GENERIC'' \<mapsto> score]\<rparr>)
          \<and> (sig_meta sg = None
                \<longrightarrow> ord_meta od = empty_meta\<lparr>m_scores := Some [''GENERIC'' \<mapsto> score]\<rparr>))"
  proof
    assume "\<not> \<bar>delta\<bar> < max (1 / 1000000) (4 / 10000)"
    with o have "snd (snd (on_signal pf now sg)) = [?od]" by simp
    moreover have "\<forall>m sc. sig_meta sg = Some m \<and> m_scores m = Some sc \<and> sc \<noteq> Map.empty
                \<longrightarrow> ord_meta ?od = m"
      by (simp add: order_meta_of_kept)
    moreover have "\<forall>m. sig_meta sg = Some m
                  \<and> (m_scores m = None \<or> m_scores m = Some Map.empty)
                \<longrightarrow> ord_meta ?od = m\<lparr>m_scores := Some [''GENERIC'' \<mapsto> score]\<rparr>"
      using order_meta_of_generic by simp
    moreover have "sig_meta sg = None
                \<longrightarrow> ord_meta ?od = empty_meta\<lparr>m_scores := Some [''GENERIC'' \<mapsto> score]\<rparr>"
      by (simp add: order_meta_of_none)
    ultimately show "\<exists>od. snd (snd (on_signal pf now sg)) = [od]
          \<and> ord_symbol od = upper raw \<and> ord_price od = price
          \<and> ord_quantity od = \<bar>delta\<bar>
          \<and> ord_direction od = (if delta > 0 then ''BUY'' else ''SELL'')
          \<and> ord_id od = ORD now
          \<and> (\<forall>m sc. sig_meta sg = Some m \<and> m_scores m = Some sc \<and> sc \<noteq> Map.empty
                \<longrightarrow> ord_meta od = m)
          \<and> (\<forall>m. sig_meta sg = Some m
                  \<and> (m_scores m = None \<or> m_scores m = Some Map.empty)
                \<longrightarrow> ord_meta od = m\<lparr>m_scores := Some [''GENERIC'' \<mapsto> score]\<rparr>)
          \<and> (sig_meta sg = None
                \<longrightarrow> ord_meta od = empty_meta\<lparr>m_scores := Some [''GENERIC'' \<mapsto> score]\<rparr>)"
      by (intro exI [of _ ?od]) simp
  qed
  have c: "score = 8 / 10 \<and> max_units pf (upper raw) = Some (1 / 100)
        \<and> positions pf (upper raw) = Some 0 \<longrightarrow>
       map ord_direction (snd (snd (on_signal pf now sg))) = [''BUY'']
       \<and> map ord_quantity (snd (snd (on_signal pf now sg))) = [8 / 1000]"
  proof
    assume h: "score = 8 / 10 \<and> max_units pf (upper raw) = Some (1 / 100)
        \<and> positions pf (upper raw) = Some 0"
    then have "delta = 8 / 1000" by (simp add: delta_def)
    with o show "map ord_direction (snd (snd (on_signal pf now sg))) = [''BUY'']
       \<and> map ord_quantity (snd (snd (on_signal pf now sg))) = [8 / 1000]" by simp
  qed
  from r a b c show ?thesis
    unfolding Let_def score_def [symmetric] delta_def [symmetric] by blast
qed

theorem on_signal_sizes_order_witness:
  "sig_direction (signal_x ''btcusdt'' 0.8 (meta_momentum 0.8)) = Some ''TARGET''
   \<and> sig_symbol (signal_x ''btcusdt'' 0.8 (meta_momentum 0.8)) = Some ''btcusdt''
   \<and> sig_price (signal_x ''btcusdt'' 0.8 (meta_momentum 0.8)) = Some 100
   \<and> snd (snd (on_signal (PortfolioHandler_new 100000 None) 1
        (signal_x ''btcusdt'' 0.8 (meta_momentum 0.8))))
      = [\<lparr>ord_symbol = ''BTCUSDT'', ord_quantity = 0.008, ord_direction = ''BUY'',
           ord_price = 100, ord_id = ORD 1, ord_meta = meta_momentum 0.8\<rparr>]"
proof -
  let ?sg = "signal_x ''btcusdt'' 0.8 (meta_momentum 0.8)"
  let ?pf = "PortfolioHandler_new 100000 None"
  have h: "sig_direction ?sg = Some ''TARGET''" "sig_symbol ?sg = Some ''btcusdt''"
    "sig_price ?sg = Some 100" by (simp_all add: signal_x_def)
  have u: "upper ''btcusdt'' = ''BTCUSDT''" by (simp add: upper_def upper_char_def)
  have ne: "[''MOMENTUM'' \<mapsto> (0.8::real)] \<noteq> Map.empty" by simp
  have v: "sig_score ?sg = Some 0.8" "sig_meta ?sg = Some (meta_momentum 0.8)"
    "m_scores (meta_momentum 0.8) = Some [''MOMENTUM'' \<mapsto> 0.8]"
    "max_units ?pf ''BTCUSDT'' = None" "positions ?pf ''BTCUSDT'' = None"
    by (simp_all add: signal_x_def meta_momentum_def PortfolioHandler_new_def)
  from on_signal_sizes_order [OF h, of ?pf 1]
  obtain od where od: "snd (snd (on_signal ?pf 1 ?sg)) = [od]" "ord_symbol od = ''BTCUSDT''"
    "ord_price od = 100" "ord_quantity od = 0.008" "ord_direction od = ''BUY''"
    "ord_id od = ORD 1" "ord_meta od = meta_momentum 0.8"
    unfolding Let_def u v using ne by (auto simp: meta_momentum_def)
  then have "od = \<lparr>ord_symbol = ''BTCUSDT'', ord_quantity = 0.008, ord_direction = ''BUY'',
           ord_price = 100, ord_id = ORD 1, ord_meta = meta_momentum 0.8\<rparr>" by (cases od) simp
  with od(1) h show ?thesis by simp
qed

text \<open>
  The claim as stated fails where it says the meta is carried untouched: a signal whose
  meta has no \<open>scores\<close> gets \<open>scores = {"GENERIC": score}\<close> added to the meta of its
  order. And the order id is the clock reading: two orders placed at one reading of the
  clock carry the same id.
\<close>

theorem on_signal_rewrites_meta_without_scores:
  "map ord_meta (snd (snd (on_signal (PortfolioHandler_new 100000 None) 1
       (signal_x ''btcusdt'' 0.8 meta_x))))
     = [meta_x\<lparr>m_scores := Some [''GENERIC'' \<mapsto> 0.8]\<rparr>]
   \<and> meta_x\<lparr>m_scores := Some [''GENERIC'' \<mapsto> 0.8]\<rparr> \<noteq> meta_x
   \<and> map ord_id (snd (snd (on_signal (PortfolioHandler_new 100000 None) 1
       (signal_x ''btcusdt'' 0.8 meta_x))))
     = map ord_id (snd (snd (on_signal (PortfolioHandler_new 100000 None) 1
       (signal_x ''ethusdt'' (- 0.5) meta_x))))"
  by (simp add: signal_simps)





lemma upper_BUY: "upper ''BUY'' = ''BUY''" and upper_SELL: "upper ''SELL'' \<noteq> ''BUY''"
  by (simp_all add: upper_def upper_char_def)

lemma publish_signal_step:
  fixes pf :: portfolio and sg :: signal and raw :: string
  assumes "has_bus ex"
    and "sig_direction sg = Some ''TARGET''"
    and "sig_symbol sg = Some raw" and "sig_price sg = Some price"
  defines "delta \<equiv> max (- 1) (min 1 (or_else (sig_score sg) 0))
      * dd_get (1 / 100) (max_units pf) (upper raw) - dd_get 0 (positions pf) (upper raw)"
  shows "\<exists>pf' ex' orders. publish_signal (pf, ex) now sg = (None, (pf', ex'), orders)
    \<and> has_bus ex'
    \<and> dd_get (1 / 100) (max_units pf') (upper raw) = dd_get (1 / 100) (max_units pf) (upper raw)
    \<and> (if \<bar>delta\<bar> < 4 / 10000
        then orders = [] \<and> dd_get 0 (positions pf') (upper raw) = dd_get 0 (positions pf) (upper raw)
        else length orders = 1
          \<and> dd_get 0 (positions pf') (upper raw) = dd_get 0 (positions pf) (upper raw) + delta)"
proof (cases "\<bar>delta\<bar> < 4 / 10000")
  case True
  with on_signal_target [OF assms(2-4), of pf now] show ?thesis
    unfolding delta_def using assms(1)
    by (simp add: publish_signal_def dd_get_touch)
next
  case False
  let ?pf1 = "pf\<lparr>last_prices := (last_prices pf)(upper raw \<mapsto> price),
        max_units := dd_touch (1 / 100) (max_units pf) (upper raw),
        positions := dd_touch 0 (positions pf) (upper raw)\<rparr>"
  let ?od = "\<lparr>ord_symbol = upper raw, ord_quantity = \<bar>delta\<bar>,
      ord_direction = (if delta > 0 then ''BUY'' else ''SELL''),
      ord_price = price, ord_id = ORD now,
      ord_meta = order_meta_of (sig_meta sg) (or_else (sig_score sg) 0)\<rparr>"
  from False on_signal_target [OF assms(2-4), of pf now]
  have os: "on_signal pf now sg = (None, ?pf1, [?od])"
    unfolding delta_def by simp
  from on_order_with_bus [OF assms(1), of now ?od] obtain ex' fl where
    oo: "on_order ex now ?od = (ex', [fl])" and fl: "fill_symbol fl = upper raw"
      "fill_quantity fl = \<bar>delta\<bar>" "fill_direction fl = (if delta > 0 then ''BUY'' else ''SELL'')"
      and hb: "has_bus ex'"
    by auto
  have ps: "publish_signal (pf, ex) now sg = (None, (on_fill ?pf1 fl, ex'), [?od])"
    using os oo by (simp add: publish_signal_def)
  have signed: "(if upper (fill_direction fl) = ''BUY'' then fill_quantity fl else - fill_quantity fl)
      = delta"
    using fl upper_BUY upper_SELL by (auto simp: abs_if)
  have "dd_get 0 (positions (on_fill ?pf1 fl)) (upper raw)
      = dd_get 0 (positions pf) (upper raw) + delta"
    using signed fl(1) by (simp add: on_fill_def Let_def upper_idem dd_get_touch) (simp add: dd_get_def)
  moreover have "dd_get (1 / 100) (max_units (on_fill ?pf1 fl)) (upper raw)
      = dd_get (1 / 100) (max_units pf) (upper raw)"
    by (simp add: on_fill_def Let_def dd_get_touch)
  ultimately show ?thesis using False ps hb by simp
qed

lemma publish_signals_quiet:
  assumes "has_bus ex"
    and "\<forall>p \<in> set sigs. targets symbol score (snd p)"
    and "\<bar>max (- 1) (min 1 score) * dd_get (1 / 100) (max_units pf) symbol
          - dd_get 0 (positions pf) symbol\<bar> < 4 / 10000"
  shows "\<exists>sys'. publish_signals (pf, ex) sigs = (None, sys', [])"
  using assms
proof (induction sigs arbitrary: pf ex)
  case Nil
  then show ?case by simp
next
  case (Cons p sigs)
  obtain now sg where p: "p = (now, sg)" by (cases p)
  with Cons.prems(2) have t: "targets symbol score sg" by simp
  then obtain raw price where sg: "sig_direction sg = Some ''TARGET''" "sig_symbol sg = Some raw"
      "sig_price sg = Some price" "upper raw = symbol" "or_else (sig_score sg) 0 = score"
    by (auto simp: targets_def or_else_def split: option.splits)
  from publish_signal_step [OF Cons.prems(1) sg(1-3), of pf now] Cons.prems(3) sg(4,5)
  obtain pf' ex' where st: "publish_signal (pf, ex) now sg = (None, (pf', ex'), [])"
    "has_bus ex'" "dd_get (1 / 100) (max_units pf') symbol = dd_get (1 / 100) (max_units pf) symbol"
    "dd_get 0 (positions pf') symbol = dd_get 0 (positions pf) symbol"
    by auto
  from Cons.prems(2) have rest: "\<forall>p \<in> set sigs. targets symbol score (snd p)" by simp
  from Cons.prems(3) st(3,4)
  have "\<bar>max (- 1) (min 1 score) * dd_get (1 / 100) (max_units pf') symbol
          - dd_get 0 (positions pf') symbol\<bar> < 4 / 10000" by simp
  from Cons.IH [OF st(2) rest this] obtain sys' where
    "publish_signals (pf', ex') sigs = (None, sys', [])" by blast
  with st(1) p show ?case by simp
qed

text \<open>
  C8. Signals that all target one symbol with one score, published one after the
  other through the chain ledger, simulator (with a bus), ledger: no exception, and at
  most one order in total. Once the fill of the first order is applied the position is
  the target, so every later signal has \<open>|delta|\<close> below the noise floor.
\<close>

theorem repeated_signal_places_at_most_one_order:
  assumes "has_bus ex"
    and "\<forall>p \<in> set sigs. targets symbol score (snd p)"
  shows "fst (publish_signals (pf, ex) sigs) = None
    \<and> length (snd (snd (publish_signals (pf, ex) sigs))) \<le> 1"
proof (cases sigs)
  case Nil
  then show ?thesis by simp
next
  case (Cons p rest)
  obtain now sg where p: "p = (now, sg)" by (cases p)
  with Cons assms(2) have t: "targets symbol score sg" by simp
  then obtain raw price where sg: "sig_direction sg = Some ''TARGET''" "sig_symbol sg = Some raw"
      "sig_price sg = Some price" "upper raw = symbol" "or_else (sig_score sg) 0 = score"
    by (auto simp: targets_def or_else_def split: option.splits)
  let ?delta = "max (- 1) (min 1 score) * dd_get (1 / 100) (max_units pf) symbol
      - dd_get 0 (positions pf) symbol"
  from publish_signal_step [OF assms(1) sg(1-3), of pf now] sg(4,5)
  obtain pf' ex' orders where st: "publish_signal (pf, ex) now sg = (None, (pf', ex'), orders)"
    "has_bus ex'" "dd_get (1 / 100) (max_units pf') symbol = dd_get (1 / 100) (max_units pf) symbol"
    and c: "if \<bar>?delta\<bar> < 4 / 10000
        then orders = [] \<and> dd_get 0 (positions pf') symbol = dd_get 0 (positions pf) symbol
        else length orders = 1
          \<and> dd_get 0 (positions pf') symbol = dd_get 0 (positions pf) symbol + ?delta"
    by auto
  have len: "length orders \<le> 1" using c by (auto split: if_splits)
  have near: "\<bar>max (- 1) (min 1 score) * dd_get (1 / 100) (max_units pf') symbol
          - dd_get 0 (positions pf') symbol\<bar> < 4 / 10000"
    using c st(3) by (auto split: if_splits)
  from Cons assms(2) have rest: "\<forall>p \<in> set rest. targets symbol score (snd p)" by simp
  from publish_signals_quiet [OF st(2) rest near] obtain sys' where
    "publish_signals (pf', ex') rest = (None, sys', [])" by blast
  with st(1) p Cons len show ?thesis by simp
qed

theorem repeated_signal_places_at_most_one_order_witness:
  "has_bus (OrderExecutionHandler_new ''paper'' True 3 1)
   \<and> targets ''BTCUSDT'' 0.8 (signal_x ''btcusdt'' 0.8 (meta_momentum 0.8))
   \<and> fst (publish_signals (PortfolioHandler_new 100000 None,
         OrderExecutionHandler_new ''paper'' True 3 1)
        [(1, signal_x ''btcusdt'' 0.8 (meta_momentum 0.8)),
         (2, signal_x ''btcusdt'' 0.8 (meta_momentum 0.8)),
         (3, signal_x ''btcusdt'' 0.8 (meta_momentum 0.8))]) = None
   \<and> length (snd (snd (publish_signals (PortfolioHandler_new 100000 None,
         OrderExecutionHandler_new ''paper'' True 3 1)
        [(1, signal_x ''btcusdt'' 0.8 (meta_momentum 0.8)),
         (2, signal_x ''btcusdt'' 0.8 (meta_momentum 0.8)),
         (3, signal_x ''btcusdt'' 0.8 (meta_momentum 0.8))]))) \<le> 1"
proof -
  let ?sg = "signal_x ''btcusdt'' 0.8 (meta_momentum 0.8)"
  have h: "has_bus (OrderExecutionHandler_new ''paper'' True 3 1)"
    by (simp add: OrderExecutionHandler_new_def)
  have t: "targets ''BTCUSDT'' 0.8 ?sg"
    by (simp add: targets_def signal_x_def upper_def upper_char_def)
  then have a: "\<forall>p \<in> set [(1::int, ?sg), (2, ?sg), (3, ?sg)]. targets ''BTCUSDT'' 0.8 (snd p)"
    by simp
  from repeated_signal_places_at_most_one_order [OF h a, of "PortfolioHandler_new 100000 None"] h t
  show ?thesis by simp
qed

end
